theory Spec2Isabelle
  imports Complex_Main "HOL-Library.Word" "HOL-Library.AList"
begin

unbundle bit_operations_syntax

section \<open>Data model\<close>

text \<open>
  Exceptions of the Python sources are values. A \<open>ValueError\<close> carries the message the
  source raises it with, so that the check that fired can be told apart. \<open>Unmodelled\<close> is no
  exception of Python: it is the result of the model on an input whose behaviour the model
  does not describe, which is an operation on two arrays of different frame shapes that the
  libraries may accept.
\<close>

datatype py_error =
    ValueError string
  | IndexError
  | KeyError
  | AttributeError
  | TypeError
  | OverflowError
  | FileNotFoundError
  | Unmodelled

text \<open>
  A NumPy array of rank at least one, seen along its first axis, which is the only axis the
  workers index: \<open>a[t]\<close> is \<open>planes a ! t\<close>, a flat buffer of the remaining axes, whose
  extents are \<open>inner_shape a\<close>. So \<open>a.shape\<close> is \<open>length (planes a) # inner_shape a\<close>.
\<close>

record 'a ndarray =
  inner_shape :: "nat list"
  planes :: "'a list list"

definition ndim :: "'a ndarray \<Rightarrow> nat" where
  "ndim a = Suc (length (inner_shape a))"

definition shape :: "'a ndarray \<Rightarrow> nat list" where
  "shape a = length (planes a) # inner_shape a"

text \<open>
  One row of the detection table after linking (\<open>track_cells.py\<close>, \<open>labels_to_detections\<close> and
  \<open>link_tracks\<close>). The columns \<open>x\<close>, \<open>y\<close> and \<open>size\<close> carry a suffix. Frame indices come from
  \<open>enumerate\<close>, labels from \<open>regionprops\<close> and track identities from \<open>astype(int) + 1\<close>:
  all are non-negative Python integers. Coordinates and diameters are floats, read here as
  real numbers.
\<close>

record row =
  frame :: nat
  x_pos :: real
  y_pos :: real
  size_px :: nat
  orig_label :: nat
  diameter :: real
  particle :: nat

text \<open>The state of \<open>TrackCellsWorker\<close>; \<open>None\<close> is Python's \<open>None\<close>.\<close>

record track_cells_worker =
  tcw_label_maps :: "nat ndarray option"
  tcw_axes :: string
  tcw_linked :: "row list option"
  tcw_tracked_labels :: "16 word ndarray option"
  tcw_merge_neighbors :: bool
  tcw_remove_incomplete :: bool
  tcw_pairs :: "(nat \<times> nat) list"

text \<open>
  A measurement record of \<open>measure_intensities\<close>: the tuple \<open>(mean, integrated, area)\<close> of the
  ring, or that tuple followed by the same three values of the inner region.
\<close>

datatype measure =
    Ring3 real real nat
  | RingInner6 real real nat real real nat

text \<open>
  The state of \<open>MeasureMembraneIntensity\<close>. Label images hold non-negative labels, 0 being
  the background; intensities are read as real numbers. \<open>results\<close> is a list with one
  dictionary per frame, kept as an association list in insertion order.
\<close>

record measure_worker =
  miw_label_maps :: "nat ndarray option"
  miw_axes :: string
  miw_intensity_channel :: "real ndarray option"
  miw_membrane_thickness :: int
  miw_factor :: real
  miw_rings :: "nat ndarray option"
  miw_inner :: "nat ndarray option"
  miw_results :: "(nat \<times> measure) list list option"

definition tcw_init :: track_cells_worker where
  "tcw_init = \<lparr>tcw_label_maps = None, tcw_axes = ''TYX'', tcw_linked = None,
     tcw_tracked_labels = None, tcw_merge_neighbors = False, tcw_remove_incomplete = False,
     tcw_pairs = []\<rparr>"

definition miw_init :: measure_worker where
  "miw_init = \<lparr>miw_label_maps = None, miw_axes = ''TYX'', miw_intensity_channel = None,
     miw_membrane_thickness = 4, miw_factor = 2, miw_rings = None, miw_inner = None,
     miw_results = None\<rparr>"

section \<open>Axis validation\<close>

definition ordered :: string where
  "ordered = ''TZYX''"

text \<open>\<open>list.index\<close>; \<open>None\<close> stands for its \<open>ValueError\<close>.\<close>

fun index_of :: "'a list \<Rightarrow> 'a \<Rightarrow> nat option" where
  "index_of [] a = None"
| "index_of (b # bs) a = (if b = a then Some 0 else map_option Suc (index_of bs a))"

text \<open>The loop at the end of \<open>TrackCellsWorker.check_axes\<close>, started with \<open>last_pos = -1\<close>.\<close>

fun check_order :: "int \<Rightarrow> string \<Rightarrow> py_error + unit" where
  "check_order last_pos [] = Inr ()"
| "check_order last_pos (a # as) =
     (case index_of ordered a of
        None \<Rightarrow> Inl (ValueError ''is not in list'')
      | Some curr_pos \<Rightarrow>
          if int curr_pos < last_pos
          then Inl (ValueError ''The candidate axes are not in the correct order.'')
          else check_order (int curr_pos) as)"

definition tcw_check_axes :: "track_cells_worker \<Rightarrow> string \<Rightarrow> py_error + unit" where
  "tcw_check_axes w axs =
     (let valid = set ordered; candidate = set axs in
      if length axs \<noteq> card candidate
      then Inl (ValueError ''The candidate axes contain duplicates.'')
      else if length axs \<noteq> card (valid \<inter> candidate)
      then Inl (ValueError ''The candidate axes contain unknown elements.'')
      else if (case tcw_label_maps w of None \<Rightarrow> False | Some lm \<Rightarrow> card candidate \<noteq> ndim lm)
      then Inl (ValueError ''The candidate axes are not compatible with the current data.'')
      else check_order (- 1) axs)"

definition tcw_set_axes :: "track_cells_worker \<Rightarrow> string \<Rightarrow> py_error + track_cells_worker" where
  "tcw_set_axes w axs =
     (case tcw_check_axes w axs of
        Inl e \<Rightarrow> Inl e
      | Inr _ \<Rightarrow> Inr (w\<lparr>tcw_axes := axs\<rparr>))"

text \<open>
  \<open>MeasureMembraneIntensity.check_axes\<close>: the same three tests, the third against the
  intensity channel, and no loop over the order.
\<close>

definition miw_check_axes :: "measure_worker \<Rightarrow> string \<Rightarrow> py_error + unit" where
  "miw_check_axes w axs =
     (let valid = set ordered; candidate = set axs in
      if length axs \<noteq> card candidate
      then Inl (ValueError ''The candidate axes contain duplicates.'')
      else if length axs \<noteq> card (valid \<inter> candidate)
      then Inl (ValueError ''The candidate axes contain unknown elements.'')
      else if (case miw_intensity_channel w of None \<Rightarrow> False
               | Some ic \<Rightarrow> card candidate \<noteq> ndim ic)
      then Inl (ValueError ''The candidate axes are not compatible with the current data.'')
      else Inr ())"

definition miw_set_axes :: "measure_worker \<Rightarrow> string \<Rightarrow> py_error + measure_worker" where
  "miw_set_axes w axs =
     (case miw_check_axes w axs of
        Inl e \<Rightarrow> Inl e
      | Inr _ \<Rightarrow> Inr (w\<lparr>miw_axes := axs\<rparr>))"

definition miw_set_label_maps ::
  "measure_worker \<Rightarrow> nat ndarray \<Rightarrow> py_error + measure_worker" where
  "miw_set_label_maps w d =
     (if ndim d \<noteq> length (miw_axes w)
      then Inl (ValueError ''The candidate label maps are not compatible with the current axes.'')
      else Inr (w\<lparr>miw_label_maps := Some d\<rparr>))"

text \<open>
  The specification's reading of an axis string: every tag stands before every later tag in
  \<open>TZYX\<close>.
\<close>

definition canonical_order :: "string \<Rightarrow> bool" where
  "canonical_order axs =
     (\<forall>i j. i < j \<longrightarrow> j < length axs \<longrightarrow>
        (\<exists>p q. index_of ordered (axs ! i) = Some p \<and> index_of ordered (axs ! j) = Some q \<and> p < q))"

section \<open>Pruning of incomplete tracks\<close>

definition isolate_full_tracks :: "track_cells_worker \<Rightarrow> py_error + track_cells_worker" where
  "isolate_full_tracks w =
     (case tcw_linked w of
        None \<Rightarrow> Inl (ValueError ''No linked tracks to process.'')
      | Some lk \<Rightarrow>
          (case tcw_axes w of
             [] \<Rightarrow> Inl IndexError
           | a # _ \<Rightarrow>
               if a \<noteq> CHR ''T'' then Inr w
               else
                 (case tcw_label_maps w of
                    None \<Rightarrow> Inl AttributeError
                  | Some lm \<Rightarrow>
                      let complete_labels =
                            set (map particle
                              (filter (\<lambda>r. int (frame r) = int (hd (shape lm)) - 1) lk))
                      in Inr (w\<lparr>tcw_linked :=
                                 Some (filter (\<lambda>r. particle r \<in> complete_labels) lk)\<rparr>))))"

section \<open>Relabelling with track identities\<close>

text \<open>
  \<open>relabel_with_tracks\<close> allocates every output frame with \<open>dtype=np.uint16\<close> and stores the
  Python integer \<open>track_id\<close> into it. What NumPy does with an integer that does not fit
  depends on its version: before 2.0 the low 16 bits are stored, from 2.0 on the store raises
  \<open>OverflowError\<close>. The version is a parameter of the model. The conversion takes place
  before the masked store, whether or not the mask selects a pixel.
\<close>

datatype overflow_policy = Wrap | Raise

definition to_uint16 :: "overflow_policy \<Rightarrow> nat \<Rightarrow> py_error + 16 word" where
  "to_uint16 pol v =
     (if v < 65536 then Inr (of_nat v)
      else (case pol of Wrap \<Rightarrow> Inr (of_nat v) | Raise \<Rightarrow> Inl OverflowError))"

text \<open>\<open>out_t[lab == orig_label] = v\<close>\<close>

definition assign_where :: "nat list \<Rightarrow> nat \<Rightarrow> 'a \<Rightarrow> 'a list \<Rightarrow> 'a list" where
  "assign_where lab l v out_t = map2 (\<lambda>p old. if p = l then v else old) lab out_t"

text \<open>The loop over the rows of one frame's group.\<close>

fun relabel_rows ::
  "overflow_policy \<Rightarrow> nat list \<Rightarrow> row list \<Rightarrow> 16 word list \<Rightarrow> py_error + 16 word list" where
  "relabel_rows pol lab [] out_t = Inr out_t"
| "relabel_rows pol lab (r # g) out_t =
     (if orig_label r = 0 then relabel_rows pol lab g out_t
      else (case to_uint16 pol (particle r) of
              Inl e \<Rightarrow> Inl e
            | Inr v \<Rightarrow> relabel_rows pol lab g (assign_where lab (orig_label r) v out_t)))"

text \<open>
  The loop over \<open>self.linked.groupby("frame")\<close>: the keys are the frame values in ascending
  order, each group holds the rows of its frame in table order. \<open>self.label_maps[t]\<close> raises
  \<open>IndexError\<close> past the end of the stack.
\<close>

definition group_keys :: "row list \<Rightarrow> nat list" where
  "group_keys lk = sort (remdups (map frame lk))"

fun relabel_groups ::
  "overflow_policy \<Rightarrow> nat list list \<Rightarrow> row list \<Rightarrow> nat list \<Rightarrow> 16 word list list
     \<Rightarrow> py_error + 16 word list list" where
  "relabel_groups pol lms lk [] out = Inr out"
| "relabel_groups pol lms lk (t # ts) out =
     (if length lms \<le> t then Inl IndexError
      else (case relabel_rows pol (lms ! t) (filter (\<lambda>r. frame r = t) lk) (out ! t) of
              Inl e \<Rightarrow> Inl e
            | Inr out_t \<Rightarrow> relabel_groups pol lms lk ts (out[t := out_t])))"

text \<open>\<open>np.array(out)\<close> for a list of equally shaped frames.\<close>

definition np_array :: "nat list \<Rightarrow> 'a list list \<Rightarrow> 'a ndarray" where
  "np_array sh out = \<lparr>inner_shape = (if out = [] then [] else sh), planes = out\<rparr>"

definition relabel_with_tracks ::
  "overflow_policy \<Rightarrow> track_cells_worker \<Rightarrow> py_error + track_cells_worker" where
  "relabel_with_tracks pol w =
     (case tcw_label_maps w of
        None \<Rightarrow> Inl TypeError
      | Some lm \<Rightarrow>
          let out = map (\<lambda>lab. replicate (length lab) (0 :: 16 word)) (planes lm) in
          (case tcw_linked w of
             None \<Rightarrow> Inl AttributeError
           | Some lk \<Rightarrow>
               (case relabel_groups pol (planes lm) lk (group_keys lk) out of
                  Inl e \<Rightarrow> Inl e
                | Inr out' \<Rightarrow>
                    Inr (w\<lparr>tcw_tracked_labels := Some (np_array (inner_shape lm) out')\<rparr>))))"

section \<open>Membrane measurement\<close>

subsection \<open>Floating-point arithmetic\<close>

text \<open>
  The measurement computes in 64-bit floating point. A finite float is read as the real number
  it denotes, so that comparisons are those of the reals, while the float an operation rounds
  to is left open: \<open>np.mean\<close>, \<open>np.std\<close> and \<open>np.sum\<close> of a selection of values and the sum and
  product of two floats are parameters of the model, collected in a record. NaN is \<open>None\<close> and
  arises from the mean and the standard deviation of an empty selection; infinities and NaN
  among the pixels are not modelled.
\<close>

record arith =
  fl_mean :: "real list \<Rightarrow> real"
  fl_std :: "real list \<Rightarrow> real"
  fl_sum :: "real list \<Rightarrow> real"
  fl_add :: "real \<Rightarrow> real \<Rightarrow> real"
  fl_mul :: "real \<Rightarrow> real \<Rightarrow> real"

text \<open>Mean and population standard deviation of a non-empty list of real numbers.\<close>

definition mean_of :: "real list \<Rightarrow> real" where
  "mean_of vs = sum_list vs / real (length vs)"

definition stddev_of :: "real list \<Rightarrow> real" where
  "stddev_of vs = sqrt (sum_list (map (\<lambda>v. (v - mean_of vs)\<^sup>2) vs) / real (length vs))"

text \<open>
  The arithmetic that never rounds. It agrees with the machine's on the inputs whose exact
  results are floats, such as small integers.
\<close>

definition exact_arith :: arith where
  "exact_arith = \<lparr>fl_mean = mean_of, fl_std = stddev_of, fl_sum = sum_list,
                   fl_add = (+), fl_mul = (*)\<rparr>"

subsection \<open>Outlier mask\<close>

text \<open>
  \<open>np.mean\<close> and \<open>np.std\<close>. Both are NaN on an empty selection; a sum with NaN is NaN and a
  comparison with NaN is false.
\<close>

definition np_mean :: "arith \<Rightarrow> real list \<Rightarrow> real option" where
  "np_mean fo vs = (if vs = [] then None else Some (fl_mean fo vs))"

definition np_std :: "arith \<Rightarrow> real list \<Rightarrow> real option" where
  "np_std fo vs = (if vs = [] then None else Some (fl_std fo vs))"

text \<open>\<open>intensities[labels > 0]\<close> for two frames of one shape\<close>

definition labelled_values :: "real list \<Rightarrow> nat list \<Rightarrow> real list" where
  "labelled_values intensities labels = map fst (filter (\<lambda>(v, l). 0 < l) (zip intensities labels))"

text \<open>The body of the loop of \<open>remove_outlier_intensities\<close>: the value stored in \<open>mask[t]\<close>.\<close>

definition outlier_frame :: "arith \<Rightarrow> real \<Rightarrow> real list \<Rightarrow> nat list \<Rightarrow> bool list" where
  "outlier_frame fo factor intensities labels =
     (let values = labelled_values intensities labels;
          stddev = np_std fo values;
          mean = np_mean fo values;
          too_bright = (case (mean, stddev) of
                          (Some m, Some s) \<Rightarrow> Some (fl_add fo m (fl_mul fo factor s))
                        | _ \<Rightarrow> None)
      in map (\<lambda>v. case too_bright of None \<Rightarrow> False | Some b \<Rightarrow> v < b) intensities)"

text \<open>
  The loop over \<open>t in range(len(self.intensity_channel))\<close>; \<open>sh\<close> is the shape of a frame of
  the intensity channel. \<open>self.label_maps[t]\<close> raises \<open>TypeError\<close> on \<open>None\<close> and \<open>IndexError\<close>
  past the end. The boolean index \<open>intensities[labels > 0]\<close> raises \<open>IndexError\<close> unless the
  shape of the label frame is an initial part of the shape of the intensity frame; where it is
  a proper initial part NumPy selects whole sub-arrays, which is not modelled.
\<close>

fun outlier_loop ::
  "arith \<Rightarrow> real \<Rightarrow> nat ndarray option \<Rightarrow> nat list \<Rightarrow> real list list \<Rightarrow> nat
     \<Rightarrow> py_error + bool list list" where
  "outlier_loop fo factor lmo sh [] t = Inr []"
| "outlier_loop fo factor lmo sh (intensities # rest) t =
     (case lmo of
        None \<Rightarrow> Inl TypeError
      | Some lm \<Rightarrow>
          if length (planes lm) \<le> t then Inl IndexError
          else if inner_shape lm = sh
          then (case outlier_loop fo factor lmo sh rest (Suc t) of
                  Inl e \<Rightarrow> Inl e
                | Inr ms \<Rightarrow> Inr (outlier_frame fo factor intensities (planes lm ! t) # ms))
          else if take (length (inner_shape lm)) sh = inner_shape lm
          then Inl Unmodelled
          else Inl IndexError)"

definition remove_outlier_intensities :: "arith \<Rightarrow> measure_worker \<Rightarrow> py_error + bool ndarray" where
  "remove_outlier_intensities fo w =
     (case miw_intensity_channel w of
        None \<Rightarrow> Inl (ValueError ''Intensity channel has not been set.'')
      | Some ic \<Rightarrow>
          (case outlier_loop fo (miw_factor w) (miw_label_maps w) (inner_shape ic) (planes ic) 0 of
             Inl e \<Rightarrow> Inl e
           | Inr ms \<Rightarrow> Inr \<lparr>inner_shape = inner_shape ic, planes = ms\<rparr>))"

subsection \<open>Ring and inner masks\<close>

text \<open>
  \<open>scipy.ndimage.binary_erosion(mask, iterations=k)\<close> is a parameter \<open>er\<close> of the model: it
  receives the extents of the frame, the number of iterations and the mask, and returns the
  eroded mask. \<open>binary_erosion\<close> below is the library's default behaviour, for use as an
  instance: the structuring element is the cross of connectivity one, the outside of the frame
  counts as background, and with fewer than one iteration the erosion is repeated until
  nothing changes, which leaves the mask empty.
\<close>

type_synonym erosion = "nat list \<Rightarrow> int \<Rightarrow> nat list \<Rightarrow> bool list"

definition stride :: "nat list \<Rightarrow> nat \<Rightarrow> nat" where
  "stride sh a = prod_list (drop (Suc a) sh)"

definition coord :: "nat list \<Rightarrow> nat \<Rightarrow> nat \<Rightarrow> nat" where
  "coord sh i a = (i div stride sh a) mod (sh ! a)"

definition erode_once :: "nat list \<Rightarrow> bool list \<Rightarrow> bool list" where
  "erode_once sh m =
     map (\<lambda>i. m ! i \<and>
            list_all (\<lambda>a. 0 < coord sh i a \<and> coord sh i a + 1 < sh ! a \<and>
                          m ! (i - stride sh a) \<and> m ! (i + stride sh a))
                     [0..<length sh])
         [0..<length m]"

definition binary_erosion :: erosion where
  "binary_erosion sh k msk =
     (if k < 1 then replicate (length msk) False
      else (erode_once sh ^^ nat k) (map (\<lambda>p. p \<noteq> 0) msk))"

text \<open>\<open>(self.label_maps[t] == value).astype(np.uint8)\<close>\<close>

definition mask_of :: "nat \<Rightarrow> nat list \<Rightarrow> nat list" where
  "mask_of v lab = map (\<lambda>p. if p = v then 1 else 0) lab"

text \<open>
  The loop over \<open>unique_vals\<close> for one frame, on the two buffers of that frame. \<open>mask - eroded\<close>
  is a subtraction of 8-bit unsigned values. The products with \<open>value\<close> are not reduced to the
  width of the label type; they exceed \<open>value\<close> only where the eroded mask leaves the mask.
\<close>

fun outline_values ::
  "erosion \<Rightarrow> nat list \<Rightarrow> int \<Rightarrow> nat list \<Rightarrow> nat list \<Rightarrow> nat list \<times> nat list
     \<Rightarrow> nat list \<times> nat list" where
  "outline_values er sh k lab [] (buffer_rings, buffer_inner) = (buffer_rings, buffer_inner)"
| "outline_values er sh k lab (v # vs) (buffer_rings, buffer_inner) =
     (if v = 0 then outline_values er sh k lab vs (buffer_rings, buffer_inner)
      else
        let msk = mask_of v lab;
            eroded = er sh k msk;
            rings = map2 (\<lambda>m e. ((m + 256 - of_bool e) mod 256) * v) msk eroded;
            inner = map (\<lambda>e. of_bool e * v) eroded
        in outline_values er sh k lab vs
             (map2 (OR) buffer_rings rings, map2 (OR) buffer_inner inner))"

text \<open>\<open>np.unique\<close>: the distinct values in ascending order.\<close>

definition np_unique :: "nat list \<Rightarrow> nat list" where
  "np_unique lab = sort (remdups lab)"

definition outline_frame :: "erosion \<Rightarrow> nat list \<Rightarrow> int \<Rightarrow> nat list \<Rightarrow> nat list \<times> nat list" where
  "outline_frame er sh k lab =
     outline_values er sh k lab (np_unique lab)
       (replicate (length lab) 0, replicate (length lab) 0)"

definition labels_to_outlines ::
  "erosion \<Rightarrow> measure_worker \<Rightarrow> py_error + nat ndarray \<times> nat ndarray" where
  "labels_to_outlines er w =
     (case miw_label_maps w of
        None \<Rightarrow> Inl (ValueError ''Label maps have not been set.'')
      | Some lm \<Rightarrow>
          let res = map (outline_frame er (inner_shape lm) (miw_membrane_thickness w)) (planes lm)
          in Inr (lm\<lparr>planes := map fst res\<rparr>, lm\<lparr>planes := map snd res\<rparr>))"


subsection \<open>Combination with the outlier mask\<close>

text \<open>
  \<open>outlines * discard_mask\<close> for two arrays whose frames have one shape. Along the first axis
  NumPy stretches an extent of 1. Where the frame shapes differ NumPy stretches or raises
  \<open>ValueError\<close>, depending on the extents; that is not modelled.
\<close>

definition mul_mask :: "nat list \<Rightarrow> bool list \<Rightarrow> nat list" where
  "mul_mask a m = map2 (\<lambda>v b. v * of_bool b) a m"

definition np_mul :: "nat ndarray \<Rightarrow> bool ndarray \<Rightarrow> py_error + nat ndarray" where
  "np_mul a m =
     (if inner_shape a \<noteq> inner_shape m
      then Inl Unmodelled
      else if length (planes a) = length (planes m)
      then Inr (a\<lparr>planes := map2 mul_mask (planes a) (planes m)\<rparr>)
      else if length (planes m) = 1
      then Inr (a\<lparr>planes := map (\<lambda>p. mul_mask p (hd (planes m))) (planes a)\<rparr>)
      else if length (planes a) = 1
      then Inr (a\<lparr>planes := map (mul_mask (hd (planes a))) (planes m)\<rparr>)
      else Inl (ValueError ''operands could not be broadcast together''))"

subsection \<open>Files and random numbers\<close>

text \<open>
  \<open>utils.get_integrated_intensity\<close> draws \<open>random.randint(0, 1000)\<close> and writes two TIFF files
  named after the number into \<open>/tmp/exported\<close>. The environment records whether that directory
  exists, the files written so far (a later write to the same path replaces the earlier one)
  and how many numbers have been drawn; \<open>rnd n\<close> is the outcome of the \<open>n\<close>-th draw.
\<close>

datatype path = Intensity_tif nat | Label_tif nat

datatype tiff = Tiff_real "real list" | Tiff_bool "bool list"

record env =
  exported_exists :: bool
  files :: "(path \<times> tiff) list"
  randint_calls :: nat

definition imwrite :: "env \<Rightarrow> path \<Rightarrow> tiff \<Rightarrow> py_error + env" where
  "imwrite e p c =
     (if exported_exists e then Inr (e\<lparr>files := AList.update p c (files e)\<rparr>)
      else Inl FileNotFoundError)"

definition get_integrated_intensity ::
  "arith \<Rightarrow> (nat \<Rightarrow> nat) \<Rightarrow> env \<Rightarrow> real list \<Rightarrow> bool list \<Rightarrow> py_error + env \<times> real" where
  "get_integrated_intensity fo rnd e intensity label =
     (let rdm_nbr = rnd (randint_calls e) mod 1001;
          e0 = e\<lparr>randint_calls := Suc (randint_calls e)\<rparr>
      in case imwrite e0 (Intensity_tif rdm_nbr) (Tiff_real intensity) of
           Inl err \<Rightarrow> Inl err
         | Inr e1 \<Rightarrow>
             (case imwrite e1 (Label_tif rdm_nbr) (Tiff_bool label) of
                Inl err \<Rightarrow> Inl err
              | Inr e2 \<Rightarrow>
                  Inr (e2, fl_sum fo (map fst (filter snd (zip intensity label))))))"

subsection \<open>Region properties and measurement\<close>

text \<open>
  \<open>skimage.measure.regionprops(label_image, intensity_image)\<close>, as far as the worker reads it:
  one region per positive label in ascending order, with its pixel count, the mean of the
  intensities under it, and the crops of its mask and of the masked intensities to its
  bounding box. The label image must be two- or three-dimensional, or \<open>TypeError\<close> is raised.
  The shapes of the two images are compared when a region is built, so only if the label image
  has a positive label: the intensity image must have the shape of the label image, with at
  most one further axis at the end for channels, or \<open>ValueError\<close> is raised. The means of an
  image with a channel axis are arrays, which is not modelled.
\<close>

record region =
  rp_label :: nat
  rp_area :: nat
  rp_mean_intensity :: real
  rp_intensity_image :: "real list"
  rp_image :: "bool list"

definition region_pixels :: "nat list \<Rightarrow> nat \<Rightarrow> nat list" where
  "region_pixels lab l = filter (\<lambda>i. lab ! i = l) [0..<length lab]"

definition in_bbox :: "nat list \<Rightarrow> nat list \<Rightarrow> nat \<Rightarrow> bool" where
  "in_bbox sh idx i =
     list_all (\<lambda>a. Min (set (map (\<lambda>j. coord sh j a) idx)) \<le> coord sh i a \<and>
                   coord sh i a \<le> Max (set (map (\<lambda>j. coord sh j a) idx)))
              [0..<length sh]"

definition make_region :: "arith \<Rightarrow> nat list \<Rightarrow> nat list \<Rightarrow> real list \<Rightarrow> nat \<Rightarrow> region" where
  "make_region fo sh lab ints l =
     (let idx = region_pixels lab l;
          box = filter (in_bbox sh idx) [0..<length lab]
      in \<lparr>rp_label = l,
          rp_area = length idx,
          rp_mean_intensity = fl_mean fo (map (\<lambda>i. ints ! i) idx),
          rp_intensity_image = map (\<lambda>i. if lab ! i = l then ints ! i else 0) box,
          rp_image = map (\<lambda>i. lab ! i = l) box\<rparr>)"

text \<open>
  \<open>sh\<close> and \<open>lab\<close> are the shape and the pixels of the label image, \<open>ish\<close> and \<open>ints\<close> those of
  the intensity image.
\<close>

definition regionprops ::
  "arith \<Rightarrow> nat list \<Rightarrow> nat list \<Rightarrow> nat list \<Rightarrow> real list \<Rightarrow> py_error + region list" where
  "regionprops fo sh lab ish ints =
     (if length sh \<noteq> 2 \<and> length sh \<noteq> 3 then Inl TypeError
      else if filter (\<lambda>l. 0 < l) lab = [] then Inr []
      else if ish = sh
      then Inr (map (make_region fo sh lab ints) (sort (remdups (filter (\<lambda>l. 0 < l) lab))))
      else if take (length sh) ish = sh \<and> length ish = Suc (length sh)
      then Inl Unmodelled
      else Inl (ValueError
                  ''Label and intensity image shapes must match, except for channel (last) axis.''))"

text \<open>The two loops over the regions of one frame.\<close>

fun ring_loop ::
  "arith \<Rightarrow> (nat \<Rightarrow> nat) \<Rightarrow> env \<Rightarrow> region list \<Rightarrow> (nat \<times> measure) list
     \<Rightarrow> py_error + env \<times> (nat \<times> measure) list" where
  "ring_loop fo rnd e [] results_t = Inr (e, results_t)"
| "ring_loop fo rnd e (prop # props) results_t =
     (if rp_label prop = 0 then ring_loop fo rnd e props results_t
      else (case get_integrated_intensity fo rnd e (rp_intensity_image prop) (rp_image prop) of
              Inl err \<Rightarrow> Inl err
            | Inr (e', integrated_ring) \<Rightarrow>
                ring_loop fo rnd e' props
                  (AList.update (rp_label prop)
                     (Ring3 (rp_mean_intensity prop) integrated_ring (rp_area prop)) results_t)))"

fun inner_loop ::
  "arith \<Rightarrow> (nat \<Rightarrow> nat) \<Rightarrow> env \<Rightarrow> region list \<Rightarrow> (nat \<times> measure) list
     \<Rightarrow> py_error + env \<times> (nat \<times> measure) list" where
  "inner_loop fo rnd e [] results_t = Inr (e, results_t)"
| "inner_loop fo rnd e (prop # props) results_t =
     (if rp_label prop = 0 then inner_loop fo rnd e props results_t
      else (case map_of results_t (rp_label prop) of
              None \<Rightarrow> inner_loop fo rnd e props results_t
            | Some rec \<Rightarrow>
                (case get_integrated_intensity fo rnd e (rp_intensity_image prop) (rp_image prop) of
                   Inl err \<Rightarrow> Inl err
                 | Inr (e', integrated_inner) \<Rightarrow>
                     (case rec of
                        Ring3 mean_ring integrated_ring area_ring \<Rightarrow>
                          inner_loop fo rnd e' props
                            (AList.update (rp_label prop)
                               (RingInner6 mean_ring integrated_ring area_ring
                                  (rp_mean_intensity prop) integrated_inner (rp_area prop))
                               results_t)
                      | RingInner6 _ _ _ _ _ _ \<Rightarrow>
                          Inl (ValueError ''too many values to unpack'')))))"

text \<open>
  One pass of the loop over the frames, from the three frames it reads: the frame of the ring
  buffer with its shape \<open>rsh\<close>, the frame of the inner buffer with its shape \<open>nsh\<close>, and the
  frame of the intensity channel with its shape \<open>ish\<close>.
\<close>

definition measure_frame ::
  "arith \<Rightarrow> (nat \<Rightarrow> nat) \<Rightarrow> env \<Rightarrow> nat list \<Rightarrow> nat list \<Rightarrow> nat list \<Rightarrow> nat list
     \<Rightarrow> nat list \<Rightarrow> real list \<Rightarrow> py_error + env \<times> (nat \<times> measure) list" where
  "measure_frame fo rnd e rsh ring_labels nsh inner_labels ish intensities =
     (case regionprops fo rsh ring_labels ish intensities of
        Inl err \<Rightarrow> Inl err
      | Inr measures_ring \<Rightarrow>
          (case regionprops fo nsh inner_labels ish intensities of
             Inl err \<Rightarrow> Inl err
           | Inr measures_inner \<Rightarrow>
               (case ring_loop fo rnd e measures_ring [] of
                  Inl err \<Rightarrow> Inl err
                | Inr (e', results_t) \<Rightarrow> inner_loop fo rnd e' measures_inner results_t)))"

fun measure_frames ::
  "arith \<Rightarrow> (nat \<Rightarrow> nat) \<Rightarrow> env \<Rightarrow> nat list \<Rightarrow> nat list list \<Rightarrow> nat ndarray
     \<Rightarrow> real ndarray option \<Rightarrow> nat \<Rightarrow> py_error + env \<times> (nat \<times> measure) list list" where
  "measure_frames fo rnd e rsh [] inner ico t = Inr (e, [])"
| "measure_frames fo rnd e rsh (ring_labels # rest) inner ico t =
     (if length (planes inner) \<le> t then Inl IndexError
      else (case ico of
              None \<Rightarrow> Inl TypeError
            | Some ic \<Rightarrow>
                if length (planes ic) \<le> t then Inl IndexError
                else (case measure_frame fo rnd e rsh ring_labels
                             (inner_shape inner) (planes inner ! t)
                             (inner_shape ic) (planes ic ! t) of
                        Inl err \<Rightarrow> Inl err
                      | Inr (e', results_t) \<Rightarrow>
                          (case measure_frames fo rnd e' rsh rest inner ico (Suc t) of
                             Inl err \<Rightarrow> Inl err
                           | Inr (e'', results) \<Rightarrow> Inr (e'', results_t # results)))))"

definition measure_intensities ::
  "arith \<Rightarrow> (nat \<Rightarrow> nat) \<Rightarrow> env \<Rightarrow> measure_worker \<Rightarrow> py_error + env \<times> measure_worker" where
  "measure_intensities fo rnd e w =
     (case miw_rings w of
        None \<Rightarrow> Inl (ValueError ''Outlines have not been computed.'')
      | Some rings \<Rightarrow>
          (case miw_inner w of
             None \<Rightarrow> Inl (ValueError ''Inner labels have not been computed.'')
           | Some inner \<Rightarrow>
               (case measure_frames fo rnd e (inner_shape rings) (planes rings) inner
                       (miw_intensity_channel w) 0 of
                  Inl err \<Rightarrow> Inl err
                | Inr (e', results) \<Rightarrow> Inr (e', w\<lparr>miw_results := Some results\<rparr>))))"

text \<open>
  \<open>MeasureMembraneIntensity.run\<close> in two parts. \<open>run_buffers\<close> is the body up to the assignment
  of \<open>self.rings\<close> and \<open>self.inner\<close>, which touches no file; \<open>run_with\<close> is the whole method,
  which ends with the call of \<open>measure_intensities\<close>. An exception leaves the model with the
  error only; the fields the source has assigned before it are not kept.
\<close>

definition run_buffers :: "arith \<Rightarrow> erosion \<Rightarrow> measure_worker \<Rightarrow> py_error + measure_worker" where
  "run_buffers fo er w =
     (if miw_label_maps w = None then Inl (ValueError ''Label maps have not been set.'')
      else if miw_intensity_channel w = None
      then Inl (ValueError ''Intensity channel has not been set.'')
      else (case remove_outlier_intensities fo w of
              Inl err \<Rightarrow> Inl err
            | Inr discard_mask \<Rightarrow>
                (case labels_to_outlines er w of
                   Inl err \<Rightarrow> Inl err
                 | Inr (outlines, inner) \<Rightarrow>
                     (case np_mul outlines discard_mask of
                        Inl err \<Rightarrow> Inl err
                      | Inr outlines' \<Rightarrow>
                          (case np_mul inner discard_mask of
                             Inl err \<Rightarrow> Inl err
                           | Inr inner' \<Rightarrow>
                               Inr (w\<lparr>miw_rings := Some outlines',
                                      miw_inner := Some inner'\<rparr>))))))"

definition run_with ::
  "arith \<Rightarrow> (nat \<Rightarrow> nat) \<Rightarrow> erosion \<Rightarrow> env \<Rightarrow> measure_worker
     \<Rightarrow> py_error + env \<times> measure_worker" where
  "run_with fo rnd er e w =
     (case run_buffers fo er w of
        Inl err \<Rightarrow> Inl err
      | Inr w' \<Rightarrow> measure_intensities fo rnd e w')"

text \<open>The method where no operation rounds.\<close>

definition run ::
  "(nat \<Rightarrow> nat) \<Rightarrow> erosion \<Rightarrow> env \<Rightarrow> measure_worker \<Rightarrow> py_error + env \<times> measure_worker" where
  "run rnd er e w = run_with exact_arith rnd er e w"

subsection \<open>Footprints and their statistics\<close>

text \<open>
  The quantities the specification names for a label \<open>l\<close> in a label image \<open>lab\<close> over the
  intensities \<open>ints\<close>: the footprint is \<open>region_pixels lab l\<close>, its area the number of its
  pixels, and \<open>region_values\<close> are the intensities under it, of which the record holds the mean
  and the sum.
\<close>

definition region_area :: "nat list \<Rightarrow> nat \<Rightarrow> nat" where
  "region_area lab l = length (region_pixels lab l)"

definition region_values :: "nat list \<Rightarrow> real list \<Rightarrow> nat \<Rightarrow> real list" where
  "region_values lab ints l = map (\<lambda>i. ints ! i) (region_pixels lab l)"

text \<open>The footprint of a label as a set of pixel positions.\<close>

definition footprint :: "nat list \<Rightarrow> nat \<Rightarrow> nat set" where
  "footprint lab l = set (region_pixels lab l)"


section \<open>Neighbour pairing\<close>

text \<open>\<open>drop_duplicates(subset=["particle"])\<close>: the first row of every track is kept.\<close>

fun drop_duplicates :: "row list \<Rightarrow> row list" where
  "drop_duplicates [] = []"
| "drop_duplicates (r # rs) = r # drop_duplicates (filter (\<lambda>q. particle q \<noteq> particle r) rs)"

text \<open>
  The distance test of \<open>make_pairs\<close>, \<open>np.hypot(xi - xj, yi - yj) < 1.5 * (diams[i] + diams[j])\<close>,
  over real numbers.
\<close>

definition near :: "row \<Rightarrow> row \<Rightarrow> bool" where
  "near a b \<longleftrightarrow>
     sqrt ((x_pos a - x_pos b)\<^sup>2 + (y_pos a - y_pos b)\<^sup>2) < 1.5 * (diameter a + diameter b)"

text \<open>
  The dictionary \<open>adj\<close> is an association list in insertion order; a Python set is a list
  without repetitions in insertion order. The keys of \<open>adj\<close> are the track identities of
  \<open>pts\<close>, which \<open>drop_duplicates\<close> has made distinct, so \<open>adj[pi]\<close> is always present.
\<close>

definition set_add :: "nat \<Rightarrow> nat list \<Rightarrow> nat list" where
  "set_add q s = (if q \<in> set s then s else s @ [q])"

definition add_edge :: "nat \<Rightarrow> nat \<Rightarrow> (nat \<times> nat list) list \<Rightarrow> (nat \<times> nat list) list" where
  "add_edge p_i p_j adj = AList.map_entry p_j (set_add p_i) (AList.map_entry p_i (set_add p_j) adj)"

definition build_adj :: "row list \<Rightarrow> (nat \<times> nat list) list" where
  "build_adj pts =
     (let particles = map particle pts;
          n = length particles
      in fold (\<lambda>i adj.
                 fold (\<lambda>j adj. if near (pts ! i) (pts ! j)
                                then add_edge (particles ! i) (particles ! j) adj
                                else adj)
                      [Suc i..<n] adj)
              [0..<n] (map (\<lambda>p. (p, [])) particles))"

text \<open>
  The inner \<open>while stack\<close> loop. The head of the list is the top of the stack; \<open>adj[q]\<close>
  raises \<open>KeyError\<close> for a missing key.
\<close>

function explore ::
  "(nat \<times> nat list) list \<Rightarrow> nat list \<Rightarrow> nat list \<Rightarrow> py_error + nat list" where
  "explore adj [] comp_set = Inr comp_set"
| "explore adj (q # stack) comp_set =
     (if q \<in> set comp_set then explore adj stack comp_set
      else (case map_of adj q of
              None \<Rightarrow> Inl KeyError
            | Some nbs \<Rightarrow>
                explore adj (rev (filter (\<lambda>nb. nb \<notin> set (comp_set @ [q])) nbs) @ stack)
                  (comp_set @ [q])))"
  by pat_completeness auto
termination
proof (relation "measures [\<lambda>(adj, stack, comp_set). card (fst ` set adj - set comp_set),
                           \<lambda>(adj, stack, comp_set). length stack]")
  show "wf (measures [\<lambda>(adj, stack, comp_set). card (fst ` set adj - set comp_set),
                      \<lambda>(adj, stack, comp_set). length stack])"
    by simp
next
  fix adj :: "(nat \<times> nat list) list" and q :: nat and stack comp_set :: "nat list"
  assume "q \<in> set comp_set"
  then show "((adj, stack, comp_set), (adj, q # stack, comp_set))
      \<in> measures [\<lambda>(adj, stack, comp_set). card (fst ` set adj - set comp_set),
                  \<lambda>(adj, stack, comp_set). length stack]"
    by simp
next
  fix adj :: "(nat \<times> nat list) list" and q :: nat and stack comp_set nbs :: "nat list"
  assume q: "q \<notin> set comp_set" and m: "map_of adj q = Some nbs"
  have "q \<in> fst ` set adj" using m by (metis map_of_eq_None_iff option.distinct(1))
  then have "fst ` set adj - set (comp_set @ [q]) \<subset> fst ` set adj - set comp_set"
    using q by auto
  then have "card (fst ` set adj - set (comp_set @ [q])) < card (fst ` set adj - set comp_set)"
    by (intro psubset_card_mono) simp_all
  then show "((adj, rev (filter (\<lambda>nb. nb \<notin> set (comp_set @ [q])) nbs) @ stack, comp_set @ [q]),
       (adj, q # stack, comp_set))
      \<in> measures [\<lambda>(adj, stack, comp_set). card (fst ` set adj - set comp_set),
                  \<lambda>(adj, stack, comp_set). length stack]"
    by simp
qed

text \<open>
  The loop over \<open>list(adj.keys())\<close>. A component of two tracks is unpacked in the order of its
  discovery; the two entries written into \<open>valid_pairs\<close> are the same for either order.
\<close>

definition set_update :: "nat list \<Rightarrow> nat list \<Rightarrow> nat list" where
  "set_update visited comp_set = fold set_add comp_set visited"

fun pair_components ::
  "(nat \<times> nat list) list \<Rightarrow> nat list \<Rightarrow> nat list \<Rightarrow> (nat \<times> nat) list
     \<Rightarrow> py_error + (nat \<times> nat) list" where
  "pair_components adj [] visited valid_pairs = Inr valid_pairs"
| "pair_components adj (p # ps) visited valid_pairs =
     (if p \<in> set visited then pair_components adj ps visited valid_pairs
      else (case explore adj [p] [] of
              Inl e \<Rightarrow> Inl e
            | Inr comp_set \<Rightarrow>
                (case comp_set of
                   [a, b] \<Rightarrow>
                     (case map_of adj a of
                        None \<Rightarrow> Inl KeyError
                      | Some na \<Rightarrow>
                          if length na = 1
                          then (case map_of adj b of
                                  None \<Rightarrow> Inl KeyError
                                | Some nb \<Rightarrow>
                                    if length nb = 1
                                    then pair_components adj ps (set_update visited comp_set)
                                           (AList.update b a (AList.update a b valid_pairs))
                                    else pair_components adj ps (set_update visited comp_set)
                                           valid_pairs)
                          else pair_components adj ps (set_update visited comp_set) valid_pairs)
                 | _ \<Rightarrow> pair_components adj ps (set_update visited comp_set) valid_pairs)))"

definition make_pairs :: "track_cells_worker \<Rightarrow> py_error + track_cells_worker" where
  "make_pairs w =
     (case tcw_linked w of
        None \<Rightarrow> Inl (ValueError ''No linked tracks to process.'')
      | Some lk \<Rightarrow>
          (case tcw_axes w of
             [] \<Rightarrow> Inl IndexError
           | a # _ \<Rightarrow>
               if a \<noteq> CHR ''T'' then Inr (w\<lparr>tcw_pairs := []\<rparr>)
               else
                 (case tcw_label_maps w of
                    None \<Rightarrow> Inl AttributeError
                  | Some lm \<Rightarrow>
                      let last_frame_idx = int (hd (shape lm)) - 1;
                          last = filter (\<lambda>r. int (frame r) = last_frame_idx) lk
                      in if last = [] then Inr (w\<lparr>tcw_pairs := []\<rparr>)
                         else
                           let pts = drop_duplicates last;
                               adj = build_adj pts
                           in (case pair_components adj (map fst adj) [] [] of
                                 Inl e \<Rightarrow> Inl e
                               | Inr valid_pairs \<Rightarrow> Inr (w\<lparr>tcw_pairs := valid_pairs\<rparr>)))))"

text \<open>The loop of \<open>apply_pairing\<close> over \<open>self.pairs.items()\<close>.\<close>

fun assign_pairs :: "(nat \<times> nat) list \<Rightarrow> (nat \<times> nat) list \<Rightarrow> nat \<Rightarrow> (nat \<times> nat) list" where
  "assign_pairs [] pair_map new_particle_id = pair_map"
| "assign_pairs ((p1, p2) # items) pair_map new_particle_id =
     (if map_of pair_map p1 \<noteq> None \<or> map_of pair_map p2 \<noteq> None
      then assign_pairs items pair_map new_particle_id
      else assign_pairs items
             (AList.update p2 new_particle_id (AList.update p1 new_particle_id pair_map))
             (new_particle_id + 1))"

text \<open>\<open>lambda x: pair_map[x] if x in pair_map else x\<close>\<close>

definition remap :: "(nat \<times> nat) list \<Rightarrow> nat \<Rightarrow> nat" where
  "remap pair_map x = (case map_of pair_map x of Some v \<Rightarrow> v | None \<Rightarrow> x)"

text \<open>
  \<open>apply_pairing\<close>. On an empty table the maximum is NaN and the column has nothing to rewrite:
  the table stays as it is.
\<close>

definition apply_pairing :: "track_cells_worker \<Rightarrow> py_error + track_cells_worker" where
  "apply_pairing w =
     (case tcw_linked w of
        None \<Rightarrow> Inl (ValueError ''No linked tracks to process.'')
      | Some lk \<Rightarrow>
          if tcw_pairs w = [] then Inr w
          else if lk = [] then Inr w
          else
            let pair_map = assign_pairs (tcw_pairs w) [] (Max (set (map particle lk)) + 1)
            in Inr (w\<lparr>tcw_linked :=
                       Some (map (\<lambda>r. r\<lparr>particle := remap pair_map (particle r)\<rparr>) lk)\<rparr>))"

subsection \<open>The adjacency graph of the last frame\<close>

text \<open>
  The graph the specification speaks of: its nodes are the tracks with a detection in the
  last frame, each standing for its first detection there, and two tracks are joined when
  their detections pass the distance test.
\<close>

definition last_points :: "row list \<Rightarrow> nat \<Rightarrow> row list" where
  "last_points lk frames = drop_duplicates (filter (\<lambda>r. int (frame r) = int frames - 1) lk)"

definition edges :: "row list \<Rightarrow> (nat \<times> nat) set" where
  "edges pts = {(particle a, particle b) |a b.
      a \<in> set pts \<and> b \<in> set pts \<and> particle a \<noteq> particle b \<and> near a b}"

definition component :: "row list \<Rightarrow> nat \<Rightarrow> nat set" where
  "component pts a = (edges pts)\<^sup>* `` {a}"

definition degree :: "row list \<Rightarrow> nat \<Rightarrow> nat" where
  "degree pts a = card (edges pts `` {a})"

definition isolated_pair :: "row list \<Rightarrow> nat \<Rightarrow> nat \<Rightarrow> bool" where
  "isolated_pair pts a b \<longleftrightarrow>
     a \<noteq> b \<and> component pts a = {a, b} \<and> degree pts a = 1 \<and> degree pts b = 1"

text \<open>The relation an adjacency dictionary stands for, and the neighbours it lists for a key.\<close>

definition graph_of :: "(nat \<times> nat list) list \<Rightarrow> (nat \<times> nat) set" where
  "graph_of adj = {(a, b). \<exists>nbs. map_of adj a = Some nbs \<and> b \<in> set nbs}"

definition nbrs :: "(nat \<times> nat list) list \<Rightarrow> nat \<Rightarrow> nat set" where
  "nbrs adj k = (case map_of adj k of None \<Rightarrow> {} | Some v \<Rightarrow> set v)"

text \<open>The shape the loops keep the dictionary in: fixed keys, sets without repetition.\<close>

definition adj_ok :: "nat list \<Rightarrow> (nat \<times> nat list) list \<Rightarrow> bool" where
  "adj_ok keys adj \<longleftrightarrow> map fst adj = keys \<and> (\<forall>v\<in>snd ` set adj. distinct v)"

text \<open>An isolated pair of a relation: a component of exactly two nodes, both of degree 1.\<close>

definition iso_in :: "(nat \<times> nat) set \<Rightarrow> nat \<Rightarrow> nat \<Rightarrow> bool" where
  "iso_in G a b \<longleftrightarrow> a \<noteq> b \<and> G\<^sup>* `` {a} = {a, b} \<and> card (G `` {a}) = 1 \<and> card (G `` {b}) = 1"

text \<open>
  What the exploration relies on: every listed neighbour is a key, no set lists a neighbour
  twice, and the relation is symmetric.
\<close>

definition graph_ok :: "(nat \<times> nat list) list \<Rightarrow> bool" where
  "graph_ok adj \<longleftrightarrow>
     (\<forall>a nbs. map_of adj a = Some nbs \<longrightarrow> set nbs \<subseteq> fst ` set adj \<and> distinct nbs) \<and>
     sym (graph_of adj)"

section \<open>Properties of the axis validators\<close>

lemma index_of_Some_iff: "(\<exists>p. index_of xs a = Some p) \<longleftrightarrow> a \<in> set xs"
  by (induction xs) auto

lemma index_of_inj: "index_of xs a = Some p \<Longrightarrow> index_of xs b = Some p \<Longrightarrow> a = b"
  by (induction xs arbitrary: p) (auto split: if_splits)

lemma check_order_iff:
  "check_order lp axs = Inr () \<longleftrightarrow>
     (\<exists>ps. map (index_of ordered) axs = map Some ps \<and> sorted ps \<and> (\<forall>p\<in>set ps. lp \<le> int p))"
proof (induction axs arbitrary: lp)
  case Nil
  then show ?case by simp
next
  case (Cons a as)
  show ?case
  proof (cases "index_of ordered a")
    case None
    then show ?thesis by (auto simp: map_eq_Cons_conv)
  next
    case (Some c)
    have "check_order lp (a # as) = Inr () \<longleftrightarrow> lp \<le> int c \<and> check_order (int c) as = Inr ()"
      using Some by simp
    also have "\<dots> \<longleftrightarrow> lp \<le> int c \<and>
        (\<exists>ps. map (index_of ordered) as = map Some ps \<and> sorted ps \<and> (\<forall>p\<in>set ps. int c \<le> int p))"
      using Cons.IH by simp
    also have "\<dots> \<longleftrightarrow> (\<exists>ps. map (index_of ordered) (a # as) = map Some ps \<and> sorted ps
        \<and> (\<forall>p\<in>set ps. lp \<le> int p))"
      (is "?L \<longleftrightarrow> ?R")
    proof
      assume ?L
      then obtain ps where ps: "map (index_of ordered) as = map Some ps" "sorted ps"
        "\<forall>p\<in>set ps. c \<le> p" and lp: "lp \<le> int c"
        by auto
      have "map (index_of ordered) (a # as) = map Some (c # ps)"
        using Some ps(1) by simp
      moreover have "sorted (c # ps)" using ps by simp
      moreover have "\<forall>p\<in>set (c # ps). lp \<le> int p" using ps(3) lp by auto
      ultimately show ?R by blast
    next
      assume ?R
      then obtain qs where qs: "map (index_of ordered) (a # as) = map Some qs" "sorted qs"
        "\<forall>p\<in>set qs. lp \<le> int p"
        by blast
      then obtain ps where q: "qs = c # ps" and ps: "map (index_of ordered) as = map Some ps"
        using Some by (cases qs) auto
      show ?L using qs(2,3) ps unfolding q by auto
    qed
    finally show ?thesis .
  qed
qed

lemma canonical_order_iff:
  "canonical_order axs \<and> set axs \<subseteq> set ordered \<longleftrightarrow>
     (\<exists>ps. map (index_of ordered) axs = map Some ps \<and> sorted_wrt (<) ps)"
proof
  assume a: "canonical_order axs \<and> set axs \<subseteq> set ordered"
  then have "\<forall>a\<in>set axs. \<exists>p. index_of ordered a = Some p"
    using index_of_Some_iff[of ordered] by blast
  then have e: "\<forall>a\<in>set axs. index_of ordered a = Some (the (index_of ordered a))"
    by auto
  define ps where "ps = map (\<lambda>a. the (index_of ordered a)) axs"
  have m: "map (index_of ordered) axs = map Some ps"
    unfolding ps_def using e by (simp add: map_idI)
  have "sorted_wrt (<) ps"
    unfolding sorted_wrt_iff_nth_less
  proof (intro allI impI)
    fix i j assume ij: "i < j" "j < length ps"
    then have "j < length axs" by (simp add: ps_def)
    with a ij obtain p q where "index_of ordered (axs ! i) = Some p"
      "index_of ordered (axs ! j) = Some q" "p < q"
      unfolding canonical_order_def by blast
    then show "ps ! i < ps ! j" using ij by (simp add: ps_def)
  qed
  with m show "\<exists>ps. map (index_of ordered) axs = map Some ps \<and> sorted_wrt (<) ps" by blast
next
  assume "\<exists>ps. map (index_of ordered) axs = map Some ps \<and> sorted_wrt (<) ps"
  then obtain ps where m: "map (index_of ordered) axs = map Some ps" and s: "sorted_wrt (<) ps"
    by blast
  have len: "length ps = length axs" using m by (metis length_map)
  have nth: "\<And>i. i < length axs \<Longrightarrow> index_of ordered (axs ! i) = Some (ps ! i)"
    using m len by (metis nth_map)
  have "set axs \<subseteq> set ordered"
  proof
    fix a assume "a \<in> set axs"
    then obtain i where "i < length axs" "axs ! i = a" by (auto simp: in_set_conv_nth)
    then show "a \<in> set ordered" using nth index_of_Some_iff by metis
  qed
  moreover have "canonical_order axs"
    unfolding canonical_order_def
  proof (intro allI impI)
    fix i j assume ij: "i < j" "j < length axs"
    then have "ps ! i < ps ! j" using s len by (simp add: sorted_wrt_iff_nth_less)
    then show "\<exists>p q. index_of ordered (axs ! i) = Some p \<and> index_of ordered (axs ! j) = Some q \<and> p < q"
      using nth ij by auto
  qed
  ultimately show "canonical_order axs \<and> set axs \<subseteq> set ordered" by blast
qed

lemma valid_tags_iff:
  assumes "distinct axs"
  shows "length axs = card (set ordered \<inter> set axs) \<longleftrightarrow> set axs \<subseteq> set ordered"
proof
  assume "length axs = card (set ordered \<inter> set axs)"
  then have "card (set ordered \<inter> set axs) = card (set axs)"
    using assms by (simp add: distinct_card)
  then have "set ordered \<inter> set axs = set axs"
    by (intro card_subset_eq) auto
  then show "set axs \<subseteq> set ordered" by blast
next
  assume "set axs \<subseteq> set ordered"
  then have "set ordered \<inter> set axs = set axs" by blast
  then show "length axs = card (set ordered \<inter> set axs)"
    using assms by (simp add: distinct_card)
qed

lemma distinct_positions:
  assumes "distinct axs" "map (index_of ordered) axs = map Some ps"
  shows "distinct ps"
proof -
  have "inj_on (index_of ordered) (set axs)"
  proof (rule inj_onI)
    fix a b assume ab: "a \<in> set axs" "b \<in> set axs" "index_of ordered a = index_of ordered b"
    from ab(1) obtain i where "i < length axs" "axs ! i = a" by (auto simp: in_set_conv_nth)
    then have "index_of ordered a = Some (ps ! i)"
      using assms(2) by (metis length_map nth_map)
    then show "a = b" using ab(3) index_of_inj by metis
  qed
  then have "distinct (map (index_of ordered) axs)"
    using assms(1) by (simp add: distinct_map)
  then show ?thesis using assms(2) by (simp add: distinct_map)
qed

lemma tcw_check_axes_accepts_iff:
  "tcw_check_axes w axs = Inr () \<longleftrightarrow>
     distinct axs \<and> set axs \<subseteq> set ordered \<and>
     (\<forall>lm. tcw_label_maps w = Some lm \<longrightarrow> length axs = ndim lm) \<and>
     canonical_order axs"
proof (cases "distinct axs")
  case False
  then have "length axs \<noteq> card (set axs)" using card_distinct by metis
  then show ?thesis using False by (simp add: tcw_check_axes_def)
next
  case d: True
  then have lc: "length axs = card (set axs)" by (simp add: distinct_card)
  show ?thesis
  proof (cases "set axs \<subseteq> set ordered")
    case False
    then have "length axs \<noteq> card (set ordered \<inter> set axs)"
      using valid_tags_iff[OF d] by simp
    then show ?thesis using False lc by (simp add: tcw_check_axes_def Let_def)
  next
    case v: True
    then have lv: "length axs = card (set ordered \<inter> set axs)"
      using valid_tags_iff[OF d] by simp
    have ord: "check_order (- 1) axs = Inr () \<longleftrightarrow> canonical_order axs"
    proof -
      have "check_order (- 1) axs = Inr () \<longleftrightarrow>
          (\<exists>ps. map (index_of ordered) axs = map Some ps \<and> sorted ps)"
        by (simp add: check_order_iff)
      also have "\<dots> \<longleftrightarrow> (\<exists>ps. map (index_of ordered) axs = map Some ps \<and> sorted_wrt (<) ps)"
        using distinct_positions[OF d] by (metis strict_sorted_iff)
      also have "\<dots> \<longleftrightarrow> canonical_order axs"
        using canonical_order_iff[of axs] v by simp
      finally show ?thesis .
    qed
    show ?thesis
    proof (cases "tcw_label_maps w")
      case None
      then show ?thesis using d v lc lv ord by (simp add: tcw_check_axes_def Let_def)
    next
      case (Some lm)
      then show ?thesis using d v lc lv ord
        by (auto simp add: tcw_check_axes_def Let_def)
    qed
  qed
qed

lemma check_order_error:
  "check_order lp axs \<noteq> Inr () \<Longrightarrow> \<exists>m. check_order lp axs = Inl (ValueError m)"
  by (induction axs arbitrary: lp) (auto split: option.splits)

lemma tcw_check_axes_error:
  "tcw_check_axes w axs \<noteq> Inr () \<Longrightarrow> \<exists>m. tcw_check_axes w axs = Inl (ValueError m)"
  using check_order_error[of "- 1" axs]
  by (auto simp: tcw_check_axes_def Let_def split: option.splits)

lemma tcw_set_axes_rank_rejected:
  assumes "tcw_label_maps w = Some lm" "length axs \<noteq> ndim lm"
  shows "\<exists>m. tcw_set_axes w axs = Inl (ValueError m)"
proof -
  have "tcw_check_axes w axs \<noteq> Inr ()"
    using assms by (simp add: tcw_check_axes_accepts_iff)
  then obtain m where "tcw_check_axes w axs = Inl (ValueError m)"
    using tcw_check_axes_error by blast
  then show ?thesis by (simp add: tcw_set_axes_def)
qed

text \<open>
  C1. The claim asks every worker's \<open>check_axes\<close> to fail on tags out of the canonical
  order. \<open>TrackCellsWorker.check_axes\<close> does (\<open>tcw_check_axes_accepts_iff\<close> above is the
  claimed characterisation for it), but \<open>MeasureMembraneIntensity.check_axes\<close> has no order
  loop: on a fresh worker it accepts \<open>XY\<close>, which the tracking worker rejects.
\<close>

theorem check_axes_order_divergence:
  "miw_check_axes miw_init ''XY'' = Inr () \<and>
   tcw_check_axes tcw_init ''XY'' =
     Inl (ValueError ''The candidate axes are not in the correct order.'')"
  by (simp add: miw_check_axes_def tcw_check_axes_def miw_init_def tcw_init_def ordered_def Let_def)

text \<open>
  C3. The claim asks that, once data is bound, \<open>set_axes\<close> rejects an axis string whose
  length differs from the rank of the bound array. For \<open>TrackCellsWorker\<close> this holds
  (\<open>tcw_set_axes_rank_rejected\<close> above). \<open>MeasureMembraneIntensity.check_axes\<close> compares with
  the intensity channel only: with a rank-3 label map bound and no intensity channel,
  \<open>set_axes\<close> accepts \<open>YX\<close> and stores it.
\<close>

theorem set_axes_rank_divergence:
  "miw_set_label_maps miw_init \<lparr>inner_shape = [1, 1], planes = [[0]]\<rparr> =
     Inr (miw_init\<lparr>miw_label_maps := Some \<lparr>inner_shape = [1, 1], planes = [[0]]\<rparr>\<rparr>) \<and>
   miw_set_axes (miw_init\<lparr>miw_label_maps := Some \<lparr>inner_shape = [1, 1], planes = [[0]]\<rparr>\<rparr>) ''YX'' =
     Inr (miw_init\<lparr>miw_label_maps := Some \<lparr>inner_shape = [1, 1], planes = [[0]]\<rparr>,
                    miw_axes := ''YX''\<rparr>)"
  by (simp add: miw_set_label_maps_def miw_set_axes_def miw_check_axes_def miw_init_def
      ordered_def ndim_def Let_def)

section \<open>Properties of the pruning\<close>

lemma prune_idem:
  fixes lk :: "row list" and P :: "row \<Rightarrow> bool"
  defines "C \<equiv> set (map particle (filter P lk))"
  shows "filter (\<lambda>r. particle r \<in> set (map particle (filter P (filter (\<lambda>r. particle r \<in> C) lk))))
           (filter (\<lambda>r. particle r \<in> C) lk)
         = filter (\<lambda>r. particle r \<in> C) lk"
proof -
  have "set (map particle (filter P (filter (\<lambda>r. particle r \<in> C) lk))) = C"
    unfolding C_def by auto
  then show ?thesis by simp
qed

lemma complete_labels_iff:
  "particle r \<in> set (map particle (filter (\<lambda>r. int (frame r) = k) lk)) \<longleftrightarrow>
     (\<exists>r'\<in>set lk. int (frame r') = k \<and> particle r' = particle r)"
  by (auto simp: image_iff)

text \<open>
  C5. With a linked table bound, \<open>isolate_full_tracks\<close> leaves the worker as it is when the axis
  string starts with another tag than \<open>T\<close> (and raises \<open>IndexError\<close>, changing nothing, when the
  string is empty); with a leading \<open>T\<close> it keeps exactly the rows whose track identity has a
  row at frame \<open>shape[0] - 1\<close>, in their order; and running it on its own result returns that
  result again.
\<close>

theorem isolate_full_tracks_prunes:
  assumes "tcw_linked w = Some lk"
  shows "(tcw_axes w = [] \<longrightarrow> isolate_full_tracks w = Inl IndexError) \<and>
         (\<forall>a as. tcw_axes w = a # as \<and> a \<noteq> CHR ''T'' \<longrightarrow> isolate_full_tracks w = Inr w) \<and>
         (\<forall>as lm. tcw_axes w = CHR ''T'' # as \<and> tcw_label_maps w = Some lm \<longrightarrow>
            isolate_full_tracks w =
              Inr (w\<lparr>tcw_linked := Some (filter (\<lambda>r. \<exists>r'\<in>set lk.
                     int (frame r') = int (hd (shape lm)) - 1 \<and> particle r' = particle r) lk)\<rparr>)) \<and>
         (\<forall>w'. isolate_full_tracks w = Inr w' \<longrightarrow> isolate_full_tracks w' = Inr w')"
proof (intro conjI allI impI)
  show "isolate_full_tracks w = Inl IndexError" if "tcw_axes w = []"
    using that assms by (simp add: isolate_full_tracks_def)
next
  fix a as assume "tcw_axes w = a # as \<and> a \<noteq> CHR ''T''"
  then show "isolate_full_tracks w = Inr w"
    using assms by (simp add: isolate_full_tracks_def)
next
  fix as lm assume "tcw_axes w = CHR ''T'' # as \<and> tcw_label_maps w = Some lm"
  then show "isolate_full_tracks w =
      Inr (w\<lparr>tcw_linked := Some (filter (\<lambda>r. \<exists>r'\<in>set lk.
             int (frame r') = int (hd (shape lm)) - 1 \<and> particle r' = particle r) lk)\<rparr>)"
    using assms by (simp add: isolate_full_tracks_def complete_labels_iff Let_def del: set_map set_filter)
next
  fix w' assume r: "isolate_full_tracks w = Inr w'"
  show "isolate_full_tracks w' = Inr w'"
  proof (cases "tcw_axes w")
    case Nil
    then show ?thesis using r assms by (simp add: isolate_full_tracks_def)
  next
    case (Cons a as)
    show ?thesis
    proof (cases "a = CHR ''T''")
      case False
      then show ?thesis using r assms Cons by (simp add: isolate_full_tracks_def)
    next
      case True
      then obtain lm where lm: "tcw_label_maps w = Some lm"
        using r assms Cons by (cases "tcw_label_maps w") (simp_all add: isolate_full_tracks_def)
      let ?P = "\<lambda>r::row. int (frame r) = int (hd (shape lm)) - 1"
      define C where "C = set (map particle (filter ?P lk))"
      have w': "w' = w\<lparr>tcw_linked := Some (filter (\<lambda>r. particle r \<in> C) lk)\<rparr>"
        using r assms Cons True lm
        by (simp add: isolate_full_tracks_def Let_def C_def)
      have "isolate_full_tracks w' =
          Inr (w'\<lparr>tcw_linked := Some (filter (\<lambda>r. particle r \<in>
                 set (map particle (filter ?P (filter (\<lambda>r. particle r \<in> C) lk))))
                   (filter (\<lambda>r. particle r \<in> C) lk))\<rparr>)"
        unfolding w' using Cons True lm by (simp add: isolate_full_tracks_def Let_def)
      also have "\<dots> = Inr w'"
      proof -
        have "filter (\<lambda>r. particle r \<in>
                 set (map particle (filter ?P (filter (\<lambda>r. particle r \<in> C) lk))))
                   (filter (\<lambda>r. particle r \<in> C) lk) = filter (\<lambda>r. particle r \<in> C) lk"
          unfolding C_def by (rule prune_idem)
        then show ?thesis by (simp only: w' track_cells_worker.update_convs
              track_cells_worker.surjective) simp
      qed
      finally show ?thesis .
    qed
  qed
qed

theorem isolate_full_tracks_prunes_witness:
  "isolate_full_tracks (tcw_init\<lparr>tcw_label_maps := Some \<lparr>inner_shape = [1, 1], planes = [[1], [1]]\<rparr>,
     tcw_linked := Some [
       \<lparr>frame = 0, x_pos = 0, y_pos = 0, size_px = 1, orig_label = 1, diameter = 1, particle = 1\<rparr>,
       \<lparr>frame = 0, x_pos = 5, y_pos = 0, size_px = 1, orig_label = 2, diameter = 1, particle = 2\<rparr>,
       \<lparr>frame = 1, x_pos = 0, y_pos = 0, size_px = 1, orig_label = 1, diameter = 1, particle = 1\<rparr>]\<rparr>)
   = Inr (tcw_init\<lparr>tcw_label_maps := Some \<lparr>inner_shape = [1, 1], planes = [[1], [1]]\<rparr>,
     tcw_linked := Some [
       \<lparr>frame = 0, x_pos = 0, y_pos = 0, size_px = 1, orig_label = 1, diameter = 1, particle = 1\<rparr>,
       \<lparr>frame = 1, x_pos = 0, y_pos = 0, size_px = 1, orig_label = 1, diameter = 1, particle = 1\<rparr>]\<rparr>)"
  using isolate_full_tracks_prunes[of "tcw_init\<lparr>tcw_label_maps := Some \<lparr>inner_shape = [1, 1], planes = [[1], [1]]\<rparr>,
     tcw_linked := Some [
       \<lparr>frame = 0, x_pos = 0, y_pos = 0, size_px = 1, orig_label = 1, diameter = 1, particle = 1\<rparr>,
       \<lparr>frame = 0, x_pos = 5, y_pos = 0, size_px = 1, orig_label = 2, diameter = 1, particle = 2\<rparr>,
       \<lparr>frame = 1, x_pos = 0, y_pos = 0, size_px = 1, orig_label = 1, diameter = 1, particle = 1\<rparr>]\<rparr>"]
  by (simp add: tcw_init_def shape_def)

text \<open>
  C10. With a leading \<open>T\<close> and no row at frame \<open>label_maps.shape[0] - 1\<close>,
  \<open>isolate_full_tracks\<close> returns with an empty linked table.
\<close>

theorem isolate_full_tracks_empties:
  assumes "tcw_linked w = Some lk" "tcw_axes w = CHR ''T'' # as" "tcw_label_maps w = Some lm"
    and "\<forall>r\<in>set lk. int (frame r) \<noteq> int (hd (shape lm)) - 1"
  shows "isolate_full_tracks w = Inr (w\<lparr>tcw_linked := Some []\<rparr>)"
proof -
  have "filter (\<lambda>r. int (frame r) = int (hd (shape lm)) - 1) lk = []"
    using assms(4) by (simp add: filter_empty_conv)
  then show ?thesis
    using assms(1-3) by (simp add: isolate_full_tracks_def)
qed

theorem isolate_full_tracks_empties_witness:
  "isolate_full_tracks (tcw_init\<lparr>tcw_label_maps := Some \<lparr>inner_shape = [1, 1], planes = [[1], [0]]\<rparr>,
     tcw_linked := Some [
       \<lparr>frame = 0, x_pos = 0, y_pos = 0, size_px = 1, orig_label = 1, diameter = 1, particle = 1\<rparr>]\<rparr>)
   = Inr (tcw_init\<lparr>tcw_label_maps := Some \<lparr>inner_shape = [1, 1], planes = [[1], [0]]\<rparr>,
     tcw_linked := Some []\<rparr>)"
  using isolate_full_tracks_empties[of "tcw_init\<lparr>tcw_label_maps := Some \<lparr>inner_shape = [1, 1], planes = [[1], [0]]\<rparr>,
     tcw_linked := Some [
       \<lparr>frame = 0, x_pos = 0, y_pos = 0, size_px = 1, orig_label = 1, diameter = 1, particle = 1\<rparr>]\<rparr>"
     _ "''YX''" "\<lparr>inner_shape = [1, 1], planes = [[1], [0]]\<rparr>"]
  by (simp add: tcw_init_def shape_def)

section \<open>Properties of the relabelling\<close>

lemma assign_where_length:
  "length lab = length out_t \<Longrightarrow> length (assign_where lab l v out_t) = length out_t"
  by (simp add: assign_where_def)

lemma assign_where_nth:
  "length lab = length out_t \<Longrightarrow> i < length lab \<Longrightarrow>
     assign_where lab l v out_t ! i = (if lab ! i = l then v else out_t ! i)"
  by (simp add: assign_where_def)

lemma to_uint16_fits:
  "pol = Wrap \<or> v < 65536 \<Longrightarrow> to_uint16 pol v = Inr (of_nat v)"
  by (auto simp: to_uint16_def)

lemma relabel_rows_ok:
  assumes "pol = Wrap \<or> (\<forall>r\<in>set g. orig_label r \<noteq> 0 \<longrightarrow> particle r < 65536)"
    and "length lab = length out_t"
  shows "\<exists>out'. relabel_rows pol lab g out_t = Inr out' \<and> length out' = length out_t \<and>
     (\<forall>i<length lab.
        ((\<exists>r\<in>set g. orig_label r = lab ! i \<and> orig_label r \<noteq> 0) \<longrightarrow>
           (\<exists>r\<in>set g. orig_label r = lab ! i \<and> orig_label r \<noteq> 0 \<and>
                out' ! i = of_nat (particle r))) \<and>
        (\<not> (\<exists>r\<in>set g. orig_label r = lab ! i \<and> orig_label r \<noteq> 0) \<longrightarrow>
           out' ! i = out_t ! i))"
  using assms
proof (induction g arbitrary: out_t)
  case Nil
  then show ?case by simp
next
  case (Cons r g)
  let ?M = "\<lambda>g i. \<exists>r'\<in>set g. orig_label r' = lab ! i \<and> orig_label r' \<noteq> 0"
  let ?W = "\<lambda>g (out' :: 16 word list) i. \<exists>r'\<in>set g. orig_label r' = lab ! i \<and>
       orig_label r' \<noteq> 0 \<and> out' ! i = of_nat (particle r')"
  have fit: "pol = Wrap \<or> (\<forall>r\<in>set g. orig_label r \<noteq> 0 \<longrightarrow> particle r < 65536)"
    using Cons.prems(1) by auto
  show ?case
  proof (cases "orig_label r = 0")
    case True
    from Cons.IH[OF fit Cons.prems(2)] obtain out' where
      o: "relabel_rows pol lab g out_t = Inr out'" "length out' = length out_t"
      and o3: "\<And>i. i < length lab \<Longrightarrow> ?M g i \<Longrightarrow> ?W g out' i"
      and o4: "\<And>i. i < length lab \<Longrightarrow> \<not> ?M g i \<Longrightarrow> out' ! i = out_t ! i"
      by blast
    have res: "relabel_rows pol lab (r # g) out_t = Inr out'" using True o(1) by simp
    have e: "\<And>i. ?M (r # g) i \<longleftrightarrow> ?M g i" using True by auto
    have a: "\<And>i. i < length lab \<Longrightarrow> ?M (r # g) i \<Longrightarrow> ?W (r # g) out' i"
    proof -
      fix i assume "i < length lab" "?M (r # g) i"
      then have "?W g out' i" using o3 e by blast
      then show "?W (r # g) out' i" by auto
    qed
    have b: "\<And>i. i < length lab \<Longrightarrow> \<not> ?M (r # g) i \<Longrightarrow> out' ! i = out_t ! i"
      using o4 e by blast
    show ?thesis using res o(2) a b by blast
  next
    case False
    then have "pol = Wrap \<or> particle r < 65536" using Cons.prems(1) by auto
    then have conv: "to_uint16 pol (particle r) = Inr (of_nat (particle r))"
      by (rule to_uint16_fits)
    define o1 where "o1 = assign_where lab (orig_label r) (of_nat (particle r) :: 16 word) out_t"
    have l1: "length lab = length o1"
      using Cons.prems(2) by (simp add: o1_def assign_where_length)
    from Cons.IH[OF fit l1] obtain out' where
      o: "relabel_rows pol lab g o1 = Inr out'" "length out' = length o1"
      and o3: "\<And>i. i < length lab \<Longrightarrow> ?M g i \<Longrightarrow> ?W g out' i"
      and o4: "\<And>i. i < length lab \<Longrightarrow> \<not> ?M g i \<Longrightarrow> out' ! i = o1 ! i"
      by blast
    have res: "relabel_rows pol lab (r # g) out_t = Inr out'"
      using False conv o(1) by (simp add: o1_def)
    have n1: "\<And>i. i < length lab \<Longrightarrow>
        o1 ! i = (if lab ! i = orig_label r then of_nat (particle r) else out_t ! i)"
      using Cons.prems(2) by (simp add: o1_def assign_where_nth)
    have a: "\<And>i. i < length lab \<Longrightarrow> ?M (r # g) i \<Longrightarrow> ?W (r # g) out' i"
    proof -
      fix i assume i: "i < length lab" and m: "?M (r # g) i"
      show "?W (r # g) out' i"
      proof (cases "?M g i")
        case True
        then have "?W g out' i" using o3 i by blast
        then show ?thesis by auto
      next
        case ng: False
        then have "orig_label r = lab ! i" using m by auto
        moreover have "out' ! i = o1 ! i" using o4 i ng by blast
        ultimately have "out' ! i = of_nat (particle r)" using n1[OF i] by simp
        then show ?thesis using \<open>orig_label r = lab ! i\<close> False by auto
      qed
    qed
    have b: "\<And>i. i < length lab \<Longrightarrow> \<not> ?M (r # g) i \<Longrightarrow> out' ! i = out_t ! i"
    proof -
      fix i assume i: "i < length lab" and m: "\<not> ?M (r # g) i"
      then have ng: "\<not> ?M g i" by auto
      have "lab ! i \<noteq> orig_label r" using m False by auto
      then have "o1 ! i = out_t ! i" using n1[OF i] by simp
      then show "out' ! i = out_t ! i" using o4[OF i ng] by simp
    qed
    have "length out' = length out_t" using o(2) l1 Cons.prems(2) by simp
    then show ?thesis using res a b by blast
  qed
qed


lemma relabel_rows_overflow:
  assumes "\<exists>r\<in>set g. orig_label r \<noteq> 0 \<and> 65536 \<le> particle r"
  shows "relabel_rows Raise lab g out_t = Inl OverflowError"
  using assms
proof (induction g arbitrary: out_t)
  case Nil
  then show ?case by simp
next
  case (Cons r g)
  show ?case
  proof (cases "orig_label r \<noteq> 0 \<and> 65536 \<le> particle r")
    case True
    then show ?thesis by (simp add: to_uint16_def)
  next
    case False
    then have "\<exists>r\<in>set g. orig_label r \<noteq> 0 \<and> 65536 \<le> particle r"
      using Cons.prems by auto
    from Cons.IH[OF this] show ?thesis
      by (auto simp: to_uint16_def split: sum.splits)
  qed
qed

lemma relabel_groups_ok:
  assumes "distinct ts" "\<forall>t\<in>set ts. t < length lms" "length out = length lms"
    and "\<forall>t<length lms. length (lms ! t) = length (out ! t)"
    and "pol = Wrap \<or> (\<forall>r\<in>set lk. orig_label r \<noteq> 0 \<longrightarrow> particle r < 65536)"
  shows "\<exists>out'. relabel_groups pol lms lk ts out = Inr out' \<and> length out' = length out \<and>
     (\<forall>t<length lms.
        (t \<in> set ts \<longrightarrow>
           relabel_rows pol (lms ! t) (filter (\<lambda>r. frame r = t) lk) (out ! t) = Inr (out' ! t)) \<and>
        (t \<notin> set ts \<longrightarrow> out' ! t = out ! t))"
  using assms(1-4)
proof (induction ts arbitrary: out)
  case Nil
  then show ?case by simp
next
  case (Cons t ts)
  have t: "t < length lms" using Cons.prems(2) by simp
  have fit: "pol = Wrap \<or>
      (\<forall>r\<in>set (filter (\<lambda>r. frame r = t) lk). orig_label r \<noteq> 0 \<longrightarrow> particle r < 65536)"
    using assms(5) by auto
  have lt: "length (lms ! t) = length (out ! t)" using Cons.prems(4) t by simp
  from relabel_rows_ok[OF fit lt] obtain out_t where
    ot: "relabel_rows pol (lms ! t) (filter (\<lambda>r. frame r = t) lk) (out ! t) = Inr out_t"
    "length out_t = length (out ! t)"
    by blast
  define o1 where "o1 = out[t := out_t]"
  have p1: "distinct ts" "\<forall>t\<in>set ts. t < length lms" "length o1 = length lms"
    using Cons.prems by (simp_all add: o1_def)
  have p4: "\<forall>s<length lms. length (lms ! s) = length (o1 ! s)"
    using Cons.prems(3,4) ot(2) lt t by (auto simp: o1_def nth_list_update)
  from Cons.IH[OF p1 p4] obtain out' where
    o: "relabel_groups pol lms lk ts o1 = Inr out'" "length out' = length o1"
    "\<forall>s<length lms.
        (s \<in> set ts \<longrightarrow>
           relabel_rows pol (lms ! s) (filter (\<lambda>r. frame r = s) lk) (o1 ! s) = Inr (out' ! s)) \<and>
        (s \<notin> set ts \<longrightarrow> out' ! s = o1 ! s)"
    by blast
  have res: "relabel_groups pol lms lk (t # ts) out = Inr out'"
    using t ot(1) o(1) by (simp add: o1_def)
  have tn: "t \<notin> set ts" using Cons.prems(1) by simp
  have "\<forall>s<length lms.
        (s \<in> set (t # ts) \<longrightarrow>
           relabel_rows pol (lms ! s) (filter (\<lambda>r. frame r = s) lk) (out ! s) = Inr (out' ! s)) \<and>
        (s \<notin> set (t # ts) \<longrightarrow> out' ! s = out ! s)"
  proof (intro allI impI)
    fix s assume s: "s < length lms"
    show "(s \<in> set (t # ts) \<longrightarrow>
           relabel_rows pol (lms ! s) (filter (\<lambda>r. frame r = s) lk) (out ! s) = Inr (out' ! s)) \<and>
        (s \<notin> set (t # ts) \<longrightarrow> out' ! s = out ! s)"
    proof (cases "s = t")
      case True
      have "out' ! t = o1 ! t" using o(3) t tn by blast
      also have "\<dots> = out_t" using t Cons.prems(3) by (simp add: o1_def)
      finally show ?thesis using True ot(1) by simp
    next
      case False
      then have "o1 ! s = out ! s" by (simp add: o1_def)
      then show ?thesis using o(3) s False by auto
    qed
  qed
  then show ?case using res o(2) p1(3) Cons.prems(3) by auto
qed

text \<open>
  The groups are visited in ascending order of their frame. The first group that cannot be
  written ends the loop: a group of a frame past the stack with \<open>IndexError\<close>, a group with a
  track identity that does not fit, under the behaviour of NumPy 2, with \<open>OverflowError\<close>.
\<close>

lemma relabel_groups_fail:
  assumes "sorted ts" "distinct ts" "length out = length lms"
    and "\<forall>t<length lms. length (lms ! t) = length (out ! t)"
    and "(\<exists>t\<in>set ts. length lms \<le> t) \<or>
         (pol = Raise \<and> (\<exists>r\<in>set lk. frame r \<in> set ts \<and> orig_label r \<noteq> 0 \<and> 65536 \<le> particle r))"
  shows "relabel_groups pol lms lk ts out =
     Inl (if pol = Raise \<and> (\<exists>r\<in>set lk. frame r \<in> set ts \<and> frame r < length lms \<and>
                                orig_label r \<noteq> 0 \<and> 65536 \<le> particle r)
          then OverflowError else IndexError)"
  using assms
proof (induction ts arbitrary: out)
  case Nil
  then show ?case by simp
next
  case (Cons t ts)
  show ?case
  proof (cases "length lms \<le> t")
    case True
    have "\<forall>s\<in>set (t # ts). length lms \<le> s" using Cons.prems(1) True by auto
    then have "\<not> (\<exists>r\<in>set lk. frame r \<in> set (t # ts) \<and> frame r < length lms \<and>
        orig_label r \<noteq> 0 \<and> 65536 \<le> particle r)"
      by (meson not_le)
    then show ?thesis using True by simp
  next
    case False
    then have t: "t < length lms" by simp
    let ?g = "filter (\<lambda>r. frame r = t) lk"
    show ?thesis
    proof (cases "pol = Raise \<and> (\<exists>r\<in>set ?g. orig_label r \<noteq> 0 \<and> 65536 \<le> particle r)")
      case True
      then have "relabel_rows pol (lms ! t) ?g (out ! t) = Inl OverflowError"
        using relabel_rows_overflow by blast
      moreover have "\<exists>r\<in>set lk. frame r \<in> set (t # ts) \<and> frame r < length lms \<and>
          orig_label r \<noteq> 0 \<and> 65536 \<le> particle r"
        using True t by auto
      ultimately show ?thesis using True t by simp
    next
      case nb: False
      have fit: "pol = Wrap \<or> (\<forall>r\<in>set ?g. orig_label r \<noteq> 0 \<longrightarrow> particle r < 65536)"
      proof (cases pol)
        case Wrap
        then show ?thesis by simp
      next
        case Raise
        then have "\<forall>r\<in>set ?g. \<not> (orig_label r \<noteq> 0 \<and> 65536 \<le> particle r)" using nb by blast
        then show ?thesis by (meson not_le)
      qed
      have lt: "length (lms ! t) = length (out ! t)" using Cons.prems(4) t by simp
      from relabel_rows_ok[OF fit lt] obtain out_t where
        ot: "relabel_rows pol (lms ! t) ?g (out ! t) = Inr out_t"
        "length out_t = length (out ! t)"
        by blast
      define o1 where "o1 = out[t := out_t]"
      have p1: "sorted ts" "distinct ts" "length o1 = length lms"
        using Cons.prems(1-3) by (simp_all add: o1_def)
      have p4: "\<forall>s<length lms. length (lms ! s) = length (o1 ! s)"
        using Cons.prems(3,4) ot(2) lt t by (auto simp: o1_def nth_list_update)
      have same: "(\<exists>r\<in>set lk. frame r \<in> set (t # ts) \<and> P r \<and> orig_label r \<noteq> 0 \<and> 65536 \<le> particle r)
          \<longleftrightarrow> (\<exists>r\<in>set lk. frame r \<in> set ts \<and> P r \<and> orig_label r \<noteq> 0 \<and> 65536 \<le> particle r)"
        if "pol = Raise" for P
        using nb that by auto
      have p5: "(\<exists>t\<in>set ts. length lms \<le> t) \<or>
         (pol = Raise \<and> (\<exists>r\<in>set lk. frame r \<in> set ts \<and> orig_label r \<noteq> 0 \<and> 65536 \<le> particle r))"
        using Cons.prems(5) t same[of "\<lambda>r. True"] by auto
      have "relabel_groups pol lms lk (t # ts) out = relabel_groups pol lms lk ts o1"
        using t ot(1) by (simp add: o1_def)
      also have "\<dots> = Inl (if pol = Raise \<and> (\<exists>r\<in>set lk. frame r \<in> set ts \<and> frame r < length lms \<and>
                                orig_label r \<noteq> 0 \<and> 65536 \<le> particle r)
          then OverflowError else IndexError)"
        by (rule Cons.IH[OF p1 p4 p5])
      also have "\<dots> = Inl (if pol = Raise \<and> (\<exists>r\<in>set lk. frame r \<in> set (t # ts) \<and>
                                frame r < length lms \<and> orig_label r \<noteq> 0 \<and> 65536 \<le> particle r)
          then OverflowError else IndexError)"
        using same[of "\<lambda>r. frame r < length lms"] by (cases pol) simp_all
      finally show ?thesis .
    qed
  qed
qed

lemma group_keys_props:
  "distinct (group_keys lk)" "set (group_keys lk) = frame ` set lk" "sorted (group_keys lk)"
  by (simp_all add: group_keys_def)

lemma unat_track_id: "n < 65536 \<Longrightarrow> unat (of_nat n :: 16 word) = n"
  by (simp add: unat_of_nat)

text \<open>
  C2, as the code has it, for every linked table. Every output frame is allocated zero-filled
  with the length and extents of the original frame, and its element type is the 16-bit
  unsigned integer, whatever the track identities are. When every row lies in a frame of the
  stack, and under the behaviour of NumPy 2 every track identity to be written is below 65536,
  \<open>relabel_with_tracks\<close> returns: a pixel whose label is the non-zero original label of a row
  of its frame holds the track identity of such a row reduced to 16 bits, which is the
  identity itself when that is below 65536, and every other pixel is 0. In every other case
  the call raises: \<open>OverflowError\<close> when under the behaviour of NumPy 2 a row of a frame of the
  stack has a track identity to be written of 65536 or more, and \<open>IndexError\<close> otherwise, for a
  row whose frame lies past the stack.
\<close>

theorem relabel_with_tracks_uint16:
  assumes "tcw_label_maps w = Some lm" "tcw_linked w = Some lk"
  shows "((\<forall>r\<in>set lk. frame r < length (planes lm)) \<and>
          (pol = Wrap \<or> (\<forall>r\<in>set lk. orig_label r \<noteq> 0 \<longrightarrow> particle r < 65536)) \<longrightarrow>
       (\<exists>out. relabel_with_tracks pol w =
           Inr (w\<lparr>tcw_tracked_labels := Some (np_array (inner_shape lm) out)\<rparr>) \<and>
         length out = length (planes lm) \<and>
         (\<forall>t<length out. length (out ! t) = length (planes lm ! t) \<and>
            (\<forall>i<length (out ! t).
               ((\<exists>r\<in>set lk. frame r = t \<and> orig_label r = planes lm ! t ! i \<and> orig_label r \<noteq> 0) \<longrightarrow>
                  (\<exists>r\<in>set lk. frame r = t \<and> orig_label r = planes lm ! t ! i \<and>
                     out ! t ! i = of_nat (particle r) \<and>
                     (particle r < 65536 \<longrightarrow> unat (out ! t ! i) = particle r))) \<and>
               (\<not> (\<exists>r\<in>set lk. frame r = t \<and> orig_label r = planes lm ! t ! i \<and> orig_label r \<noteq> 0) \<longrightarrow>
                  out ! t ! i = 0))))) \<and>
     (\<not> ((\<forall>r\<in>set lk. frame r < length (planes lm)) \<and>
          (pol = Wrap \<or> (\<forall>r\<in>set lk. orig_label r \<noteq> 0 \<longrightarrow> particle r < 65536))) \<longrightarrow>
       relabel_with_tracks pol w =
         Inl (if pol = Raise \<and> (\<exists>r\<in>set lk. frame r < length (planes lm) \<and>
                                   orig_label r \<noteq> 0 \<and> 65536 \<le> particle r)
              then OverflowError else IndexError))"
proof -
  define lms where "lms = planes lm"
  define out0 where "out0 = map (\<lambda>lab. replicate (length lab) (0 :: 16 word)) lms"
  have l0: "length out0 = length lms" by (simp add: out0_def)
  have z0: "\<forall>t<length lms. length (lms ! t) = length (out0 ! t)"
    by (simp add: out0_def)
  have A: "\<exists>out. relabel_with_tracks pol w =
           Inr (w\<lparr>tcw_tracked_labels := Some (np_array (inner_shape lm) out)\<rparr>) \<and>
         length out = length (planes lm) \<and>
         (\<forall>t<length out. length (out ! t) = length (planes lm ! t) \<and>
            (\<forall>i<length (out ! t).
               ((\<exists>r\<in>set lk. frame r = t \<and> orig_label r = planes lm ! t ! i \<and> orig_label r \<noteq> 0) \<longrightarrow>
                  (\<exists>r\<in>set lk. frame r = t \<and> orig_label r = planes lm ! t ! i \<and>
                     out ! t ! i = of_nat (particle r) \<and>
                     (particle r < 65536 \<longrightarrow> unat (out ! t ! i) = particle r))) \<and>
               (\<not> (\<exists>r\<in>set lk. frame r = t \<and> orig_label r = planes lm ! t ! i \<and> orig_label r \<noteq> 0) \<longrightarrow>
                  out ! t ! i = 0)))"
    if a: "(\<forall>r\<in>set lk. frame r < length (planes lm)) \<and>
          (pol = Wrap \<or> (\<forall>r\<in>set lk. orig_label r \<noteq> 0 \<longrightarrow> particle r < 65536))"
  proof -
    from a have fits: "pol = Wrap \<or> (\<forall>r\<in>set lk. orig_label r \<noteq> 0 \<longrightarrow> particle r < 65536)"
      by simp
    have k: "distinct (group_keys lk)" "\<forall>t\<in>set (group_keys lk). t < length lms"
      using a by (auto simp: group_keys_props lms_def)
    from relabel_groups_ok[OF k l0 z0 fits] obtain out where
      o: "relabel_groups pol lms lk (group_keys lk) out0 = Inr out" "length out = length out0"
      and og: "\<And>t. t < length lms \<Longrightarrow> t \<in> set (group_keys lk) \<Longrightarrow>
          relabel_rows pol (lms ! t) (filter (\<lambda>r. frame r = t) lk) (out0 ! t) = Inr (out ! t)"
      and on: "\<And>t. t < length lms \<Longrightarrow> t \<notin> set (group_keys lk) \<Longrightarrow> out ! t = out0 ! t"
      by blast
    have res: "relabel_with_tracks pol w =
        Inr (w\<lparr>tcw_tracked_labels := Some (np_array (inner_shape lm) out)\<rparr>)"
      using assms(1,2) o(1) by (simp add: relabel_with_tracks_def out0_def lms_def)
    have len: "length out = length (planes lm)" using o(2) l0 by (simp add: lms_def)
    have frames: "\<forall>t<length out. length (out ! t) = length (planes lm ! t) \<and>
          (\<forall>i<length (out ! t).
             ((\<exists>r\<in>set lk. frame r = t \<and> orig_label r = planes lm ! t ! i \<and> orig_label r \<noteq> 0) \<longrightarrow>
                (\<exists>r\<in>set lk. frame r = t \<and> orig_label r = planes lm ! t ! i \<and>
                   out ! t ! i = of_nat (particle r) \<and>
                   (particle r < 65536 \<longrightarrow> unat (out ! t ! i) = particle r))) \<and>
             (\<not> (\<exists>r\<in>set lk. frame r = t \<and> orig_label r = planes lm ! t ! i \<and> orig_label r \<noteq> 0) \<longrightarrow>
                out ! t ! i = 0))"
    proof (intro allI impI)
      fix t assume "t < length out"
      then have t: "t < length lms" using o(2) l0 by simp
      have z: "out0 ! t = replicate (length (lms ! t)) 0" using t by (simp add: out0_def)
      show "length (out ! t) = length (planes lm ! t) \<and>
          (\<forall>i<length (out ! t).
             ((\<exists>r\<in>set lk. frame r = t \<and> orig_label r = planes lm ! t ! i \<and> orig_label r \<noteq> 0) \<longrightarrow>
                (\<exists>r\<in>set lk. frame r = t \<and> orig_label r = planes lm ! t ! i \<and>
                   out ! t ! i = of_nat (particle r) \<and>
                   (particle r < 65536 \<longrightarrow> unat (out ! t ! i) = particle r))) \<and>
             (\<not> (\<exists>r\<in>set lk. frame r = t \<and> orig_label r = planes lm ! t ! i \<and> orig_label r \<noteq> 0) \<longrightarrow>
                out ! t ! i = 0))"
      proof (cases "t \<in> set (group_keys lk)")
        case False
        then have "out ! t = out0 ! t" using on t by blast
        moreover have "\<not> (\<exists>r\<in>set lk. frame r = t)" using False by (auto simp: group_keys_props)
        ultimately show ?thesis using z by (auto simp: lms_def)
      next
        case True
        let ?g = "filter (\<lambda>r. frame r = t) lk"
        have fit: "pol = Wrap \<or> (\<forall>r\<in>set ?g. orig_label r \<noteq> 0 \<longrightarrow> particle r < 65536)"
          using fits by auto
        have lt: "length (lms ! t) = length (out0 ! t)" using z by simp
        from relabel_rows_ok[OF fit lt] og[OF t True]
        have lo: "length (out ! t) = length (out0 ! t)"
          and w: "\<And>i. i < length (lms ! t) \<Longrightarrow>
              (\<exists>r\<in>set ?g. orig_label r = lms ! t ! i \<and> orig_label r \<noteq> 0) \<Longrightarrow>
              (\<exists>r\<in>set ?g. orig_label r = lms ! t ! i \<and> orig_label r \<noteq> 0 \<and>
                  out ! t ! i = of_nat (particle r))"
          and u: "\<And>i. i < length (lms ! t) \<Longrightarrow>
              \<not> (\<exists>r\<in>set ?g. orig_label r = lms ! t ! i \<and> orig_label r \<noteq> 0) \<Longrightarrow>
              out ! t ! i = out0 ! t ! i"
          by auto
        have l: "length (out ! t) = length (planes lm ! t)" using lo z by (simp add: lms_def)
        have "\<forall>i<length (out ! t).
             ((\<exists>r\<in>set lk. frame r = t \<and> orig_label r = planes lm ! t ! i \<and> orig_label r \<noteq> 0) \<longrightarrow>
                (\<exists>r\<in>set lk. frame r = t \<and> orig_label r = planes lm ! t ! i \<and>
                   out ! t ! i = of_nat (particle r) \<and>
                   (particle r < 65536 \<longrightarrow> unat (out ! t ! i) = particle r))) \<and>
             (\<not> (\<exists>r\<in>set lk. frame r = t \<and> orig_label r = planes lm ! t ! i \<and> orig_label r \<noteq> 0) \<longrightarrow>
                out ! t ! i = 0)"
        proof (intro allI impI conjI)
          fix i assume i: "i < length (out ! t)"
            and "\<exists>r\<in>set lk. frame r = t \<and> orig_label r = planes lm ! t ! i \<and> orig_label r \<noteq> 0"
          then have "\<exists>r\<in>set ?g. orig_label r = lms ! t ! i \<and> orig_label r \<noteq> 0"
            by (auto simp: lms_def)
          with w[of i] i l obtain r where r: "r \<in> set ?g" "orig_label r = lms ! t ! i"
            "orig_label r \<noteq> 0" "out ! t ! i = of_nat (particle r)"
            by (auto simp: lms_def)
          have "particle r < 65536 \<longrightarrow> unat (out ! t ! i) = particle r"
            using r(4) by (simp add: unat_track_id)
          then show "\<exists>r\<in>set lk. frame r = t \<and> orig_label r = planes lm ! t ! i \<and>
                   out ! t ! i = of_nat (particle r) \<and>
                   (particle r < 65536 \<longrightarrow> unat (out ! t ! i) = particle r)"
            using r by (auto simp: lms_def)
        next
          fix i assume i: "i < length (out ! t)"
            and "\<not> (\<exists>r\<in>set lk. frame r = t \<and> orig_label r = planes lm ! t ! i \<and> orig_label r \<noteq> 0)"
          then have "\<not> (\<exists>r\<in>set ?g. orig_label r = lms ! t ! i \<and> orig_label r \<noteq> 0)"
            by (auto simp: lms_def)
          with u[of i] i l have "out ! t ! i = out0 ! t ! i" by (simp add: lms_def)
          then show "out ! t ! i = 0" using z i l by (simp add: lms_def)
        qed
        then show ?thesis using l by blast
      qed
    qed
    show ?thesis using res len frames by blast
  qed
  have B: "relabel_with_tracks pol w =
         Inl (if pol = Raise \<and> (\<exists>r\<in>set lk. frame r < length (planes lm) \<and>
                                   orig_label r \<noteq> 0 \<and> 65536 \<le> particle r)
              then OverflowError else IndexError)"
    if n: "\<not> ((\<forall>r\<in>set lk. frame r < length (planes lm)) \<and>
          (pol = Wrap \<or> (\<forall>r\<in>set lk. orig_label r \<noteq> 0 \<longrightarrow> particle r < 65536)))"
  proof -
    have pr: "pol = Raise" if "pol \<noteq> Wrap" using that by (cases pol) simp_all
    have c: "(\<exists>t\<in>set (group_keys lk). length lms \<le> t) \<or>
         (pol = Raise \<and> (\<exists>r\<in>set lk. frame r \<in> set (group_keys lk) \<and> orig_label r \<noteq> 0 \<and>
            65536 \<le> particle r))"
    proof (cases "\<forall>r\<in>set lk. frame r < length (planes lm)")
      case True
      then have "pol \<noteq> Wrap" "\<exists>r\<in>set lk. orig_label r \<noteq> 0 \<and> \<not> particle r < 65536"
        using n by auto
      then show ?thesis using pr by (auto simp: group_keys_props not_less)
    next
      case False
      then show ?thesis by (auto simp: group_keys_props lms_def not_less)
    qed
    have "relabel_groups pol lms lk (group_keys lk) out0 =
       Inl (if pol = Raise \<and> (\<exists>r\<in>set lk. frame r \<in> set (group_keys lk) \<and> frame r < length lms \<and>
                                orig_label r \<noteq> 0 \<and> 65536 \<le> particle r)
          then OverflowError else IndexError)"
      by (rule relabel_groups_fail[OF group_keys_props(3) group_keys_props(1) l0 z0 c])
    moreover have "(\<exists>r\<in>set lk. frame r \<in> set (group_keys lk) \<and> frame r < length lms \<and>
                                orig_label r \<noteq> 0 \<and> 65536 \<le> particle r)
        \<longleftrightarrow> (\<exists>r\<in>set lk. frame r < length (planes lm) \<and> orig_label r \<noteq> 0 \<and> 65536 \<le> particle r)"
      by (auto simp: group_keys_props lms_def)
    ultimately show ?thesis
      using assms(1,2) by (simp add: relabel_with_tracks_def out0_def lms_def)
  qed
  show ?thesis using A B by blast
qed

theorem relabel_with_tracks_uint16_witness:
  "relabel_with_tracks Wrap
     (tcw_init\<lparr>tcw_label_maps := Some \<lparr>inner_shape = [1, 3], planes = [[0, 1, 2]]\<rparr>,
        tcw_linked := Some [
          \<lparr>frame = 0, x_pos = 1, y_pos = 0, size_px = 1, orig_label = 1, diameter = 1, particle = 5\<rparr>,
          \<lparr>frame = 0, x_pos = 2, y_pos = 0, size_px = 1, orig_label = 2, diameter = 1,
            particle = 65543\<rparr>]\<rparr>)
   = Inr (tcw_init\<lparr>tcw_label_maps := Some \<lparr>inner_shape = [1, 3], planes = [[0, 1, 2]]\<rparr>,
        tcw_linked := Some [
          \<lparr>frame = 0, x_pos = 1, y_pos = 0, size_px = 1, orig_label = 1, diameter = 1, particle = 5\<rparr>,
          \<lparr>frame = 0, x_pos = 2, y_pos = 0, size_px = 1, orig_label = 2, diameter = 1,
            particle = 65543\<rparr>],
        tcw_tracked_labels := Some \<lparr>inner_shape = [1, 3], planes = [[0, 5, 7]]\<rparr>\<rparr>) \<and>
   relabel_with_tracks Raise
     (tcw_init\<lparr>tcw_label_maps := Some \<lparr>inner_shape = [1, 3], planes = [[0, 1, 2]]\<rparr>,
        tcw_linked := Some [
          \<lparr>frame = 0, x_pos = 1, y_pos = 0, size_px = 1, orig_label = 1, diameter = 1, particle = 5\<rparr>,
          \<lparr>frame = 0, x_pos = 2, y_pos = 0, size_px = 1, orig_label = 2, diameter = 1,
            particle = 65543\<rparr>]\<rparr>)
   = Inl OverflowError"
  using relabel_with_tracks_uint16[of
     "tcw_init\<lparr>tcw_label_maps := Some \<lparr>inner_shape = [1, 3], planes = [[0, 1, 2]]\<rparr>,
        tcw_linked := Some [
          \<lparr>frame = 0, x_pos = 1, y_pos = 0, size_px = 1, orig_label = 1, diameter = 1, particle = 5\<rparr>,
          \<lparr>frame = 0, x_pos = 2, y_pos = 0, size_px = 1, orig_label = 2, diameter = 1,
            particle = 65543\<rparr>]\<rparr>"
     "\<lparr>inner_shape = [1, 3], planes = [[0, 1, 2]]\<rparr>" _ Wrap]
    relabel_with_tracks_uint16[of
     "tcw_init\<lparr>tcw_label_maps := Some \<lparr>inner_shape = [1, 3], planes = [[0, 1, 2]]\<rparr>,
        tcw_linked := Some [
          \<lparr>frame = 0, x_pos = 1, y_pos = 0, size_px = 1, orig_label = 1, diameter = 1, particle = 5\<rparr>,
          \<lparr>frame = 0, x_pos = 2, y_pos = 0, size_px = 1, orig_label = 2, diameter = 1,
            particle = 65543\<rparr>]\<rparr>"
     "\<lparr>inner_shape = [1, 3], planes = [[0, 1, 2]]\<rparr>" _ Raise]
  by (simp add: tcw_init_def relabel_with_tracks_def group_keys_def to_uint16_def
      assign_where_def np_array_def)

text \<open>
  C2, as stated, fails: the element type does not grow with the largest track identity. With
  the identity 65536 the frame either receives 0 (NumPy before 2.0) or the store raises
  \<open>OverflowError\<close> (NumPy 2).
\<close>

theorem relabel_with_tracks_overflow:
  "relabel_with_tracks Wrap
     (tcw_init\<lparr>tcw_label_maps := Some \<lparr>inner_shape = [1, 1], planes = [[1]]\<rparr>,
        tcw_linked := Some [
          \<lparr>frame = 0, x_pos = 0, y_pos = 0, size_px = 1, orig_label = 1, diameter = 1,
            particle = 65536\<rparr>]\<rparr>)
   = Inr (tcw_init\<lparr>tcw_label_maps := Some \<lparr>inner_shape = [1, 1], planes = [[1]]\<rparr>,
        tcw_linked := Some [
          \<lparr>frame = 0, x_pos = 0, y_pos = 0, size_px = 1, orig_label = 1, diameter = 1,
            particle = 65536\<rparr>],
        tcw_tracked_labels := Some \<lparr>inner_shape = [1, 1], planes = [[0]]\<rparr>\<rparr>) \<and>
   relabel_with_tracks Raise
     (tcw_init\<lparr>tcw_label_maps := Some \<lparr>inner_shape = [1, 1], planes = [[1]]\<rparr>,
        tcw_linked := Some [
          \<lparr>frame = 0, x_pos = 0, y_pos = 0, size_px = 1, orig_label = 1, diameter = 1,
            particle = 65536\<rparr>]\<rparr>)
   = Inl OverflowError"
  by (simp add: tcw_init_def relabel_with_tracks_def group_keys_def to_uint16_def
      assign_where_def np_array_def)

section \<open>Properties of the measurement\<close>





lemma make_region_simps:
  "rp_label (make_region fo sh lab ints l) = l"
  "rp_area (make_region fo sh lab ints l) = region_area lab l"
  "rp_mean_intensity (make_region fo sh lab ints l) = fl_mean fo (region_values lab ints l)"
  by (simp_all add: make_region_def Let_def region_area_def region_values_def)










lemma regionprops_ok:
  assumes "length sh = 2 \<or> length sh = 3" "ish = sh"
  shows "regionprops fo sh lab ish ints =
     Inr (map (make_region fo sh lab ints) (sort (remdups (filter (\<lambda>l. 0 < l) lab))))"
  using assms by (auto simp: regionprops_def)







text \<open>
  Without the export directory the first region of a frame ends the measurement: a frame
  whose ring buffer holds a label raises \<open>FileNotFoundError\<close>.
\<close>

lemma ring_loop_no_directory:
  assumes "\<not> exported_exists e" "\<exists>p\<in>set props. rp_label p \<noteq> 0"
  shows "ring_loop fo rnd e props res = Inl FileNotFoundError"
  using assms(2)
proof (induction props)
  case Nil
  then show ?case by simp
next
  case (Cons p props)
  then show ?case
    using assms(1) by (cases "rp_label p = 0")
      (simp_all add: get_integrated_intensity_def imwrite_def Let_def)
qed

lemma measure_frame_no_directory:
  assumes "\<not> exported_exists e" "length ish = 2 \<or> length ish = 3" "rsh = ish" "nsh = ish"
    and "\<exists>l\<in>set R. 0 < l"
  shows "measure_frame fo rnd e rsh R nsh I ish J = Inl FileNotFoundError"
proof -
  let ?pr = "map (make_region fo rsh R J) (sort (remdups (filter (\<lambda>l. 0 < l) R)))"
  let ?pi = "map (make_region fo nsh I J) (sort (remdups (filter (\<lambda>l. 0 < l) I)))"
  have pr: "regionprops fo rsh R ish J = Inr ?pr" and pi: "regionprops fo nsh I ish J = Inr ?pi"
    using assms by (simp_all add: regionprops_ok)
  from assms(5) obtain l where "l \<in> set R" "0 < l" by blast
  then have "make_region fo rsh R J l \<in> set ?pr" by simp
  then have "\<exists>p\<in>set ?pr. rp_label p \<noteq> 0"
    using \<open>0 < l\<close> by (intro bexI[of _ "make_region fo rsh R J l"]) (simp_all add: make_region_simps)
  from ring_loop_no_directory[OF assms(1) this]
  show ?thesis using pr pi by (simp add: measure_frame_def)
qed



subsection \<open>The records of a frame\<close>


text \<open>
  Without the export directory no record is produced as soon as the first frame of the ring
  buffer holds a label.
\<close>

lemma measure_intensities_no_directory:
  assumes "miw_rings w = Some rings" "miw_inner w = Some inner"
    "miw_intensity_channel w = Some ic"
    and "\<not> exported_exists e" "length (inner_shape ic) = 2 \<or> length (inner_shape ic) = 3"
    and "inner_shape rings = inner_shape ic" "inner_shape inner = inner_shape ic"
    and "planes rings \<noteq> []" "planes inner \<noteq> []" "planes ic \<noteq> []"
    and "\<exists>l\<in>set (hd (planes rings)). 0 < l"
  shows "measure_intensities fo rnd e w = Inl FileNotFoundError"
proof -
  from assms(8) obtain R rest where r: "planes rings = R # rest" by (cases "planes rings") auto
  then have l: "\<exists>l\<in>set R. 0 < l" using assms(11) by simp
  have "measure_frame fo rnd e (inner_shape rings) R (inner_shape inner) (planes inner ! 0)
      (inner_shape ic) (planes ic ! 0) = Inl FileNotFoundError"
    by (rule measure_frame_no_directory[OF assms(4,5,6,7) l])
  then have "measure_frames fo rnd e (inner_shape rings) (planes rings) inner (Some ic) 0
      = Inl FileNotFoundError"
    using r assms(9,10) by simp
  then show ?thesis using assms(1-3) by (simp add: measure_intensities_def)
qed

lemmas eval_defs = measure_intensities_def measure_frame_def regionprops_def make_region_def
  region_pixels_def in_bbox_def coord_def stride_def get_integrated_intensity_def imwrite_def
  Let_def upt_rec_numeral miw_init_def exact_arith_def mean_of_def


subsection \<open>A run on one frame\<close>

lemma example_outlier_mask: "remove_outlier_intensities exact_arith
     (miw_init\<lparr>miw_label_maps := Some \<lparr>inner_shape = [1, 3], planes = [[1, 1, 0]]\<rparr>,
        miw_intensity_channel := Some \<lparr>inner_shape = [1, 3], planes = [[1, 3, 0]]\<rparr>\<rparr>)
   = Inr \<lparr>inner_shape = [1, 3], planes = [[True, True, True]]\<rparr>"
  by (simp add: remove_outlier_intensities_def outlier_frame_def labelled_values_def
      np_mean_def np_std_def miw_init_def Let_def power2_eq_square exact_arith_def mean_of_def
      stddev_of_def)

lemma length_erode_once: "length (erode_once sh m) = length m"
  by (simp add: erode_once_def)

lemma length_erode_pow: "length ((erode_once sh ^^ n) m) = length m"
  by (induction n) (simp_all add: length_erode_once)

lemma erode_once_flat: "erode_once (Suc 0 # sh) m = replicate (length m) False"
proof -
  have "\<not> list_all (\<lambda>a. 0 < coord (Suc 0 # sh) i a \<and> coord (Suc 0 # sh) i a + 1 < (Suc 0 # sh) ! a \<and>
          m ! (i - stride (Suc 0 # sh) a) \<and> m ! (i + stride (Suc 0 # sh) a))
        [0..<length (Suc 0 # sh)]" for i
    unfolding list_all_iff by (rule notI, drule bspec[where x = 0]) (simp_all add: coord_def)
  then have "erode_once (Suc 0 # sh) m = map (\<lambda>i. False) [0..<length m]"
    unfolding erode_once_def by simp
  then show ?thesis by (simp add: map_replicate_const)
qed

lemma erode_pow_flat: "0 < n \<Longrightarrow> (erode_once (Suc 0 # sh) ^^ n) m = replicate (length m) False"
  by (cases n) (simp_all add: erode_once_flat length_erode_pow)

lemma binary_erosion_flat:
  "0 < k \<Longrightarrow> binary_erosion (Suc 0 # sh) k m = replicate (length m) False"
  using erode_pow_flat[of "nat k" sh "map (\<lambda>p. p \<noteq> 0) m"] by (simp add: binary_erosion_def)

lemma example_outlines: "labels_to_outlines binary_erosion
     (miw_init\<lparr>miw_label_maps := Some \<lparr>inner_shape = [1, 3], planes = [[1, 1, 0]]\<rparr>,
        miw_intensity_channel := Some \<lparr>inner_shape = [1, 3], planes = [[1, 3, 0]]\<rparr>\<rparr>)
   = Inr (\<lparr>inner_shape = [1, 3], planes = [[1, 1, 0]]\<rparr>,
          \<lparr>inner_shape = [1, 3], planes = [[0, 0, 0]]\<rparr>)"
  by (simp add: labels_to_outlines_def outline_frame_def np_unique_def mask_of_def
      binary_erosion_flat miw_init_def Let_def)


lemma example_np_mul: "np_mul \<lparr>inner_shape = [1, 3], planes = [[1, 1, 0]]\<rparr>
       \<lparr>inner_shape = [1, 3], planes = [[True, True, True]]\<rparr>
     = Inr \<lparr>inner_shape = [1, 3], planes = [[1, 1, 0]]\<rparr>"
  "np_mul \<lparr>inner_shape = [1, 3], planes = [[0, 0, 0]]\<rparr>
       \<lparr>inner_shape = [1, 3], planes = [[True, True, True]]\<rparr>
     = Inr \<lparr>inner_shape = [1, 3], planes = [[0, 0, 0]]\<rparr>"
  by (simp_all add: np_mul_def mul_mask_def)

lemma example_buffers: "run_buffers exact_arith binary_erosion
     (miw_init\<lparr>miw_label_maps := Some \<lparr>inner_shape = [1, 3], planes = [[1, 1, 0]]\<rparr>,
        miw_intensity_channel := Some \<lparr>inner_shape = [1, 3], planes = [[1, 3, 0]]\<rparr>\<rparr>)
   = Inr (miw_init\<lparr>miw_label_maps := Some \<lparr>inner_shape = [1, 3], planes = [[1, 1, 0]]\<rparr>,
        miw_intensity_channel := Some \<lparr>inner_shape = [1, 3], planes = [[1, 3, 0]]\<rparr>,
        miw_rings := Some \<lparr>inner_shape = [1, 3], planes = [[1, 1, 0]]\<rparr>,
        miw_inner := Some \<lparr>inner_shape = [1, 3], planes = [[0, 0, 0]]\<rparr>\<rparr>)"
  by (simp only: run_buffers_def example_outlier_mask example_outlines example_np_mul
      measure_worker.simps option.simps sum.case prod.case if_False if_True simp_thms) simp

lemma example_measure: "measure_intensities exact_arith (\<lambda>n. n) \<lparr>exported_exists = x, files = [], randint_calls = 0\<rparr>
     (miw_init\<lparr>miw_label_maps := Some \<lparr>inner_shape = [1, 3], planes = [[1, 1, 0]]\<rparr>,
        miw_intensity_channel := Some \<lparr>inner_shape = [1, 3], planes = [[1, 3, 0]]\<rparr>,
        miw_rings := Some \<lparr>inner_shape = [1, 3], planes = [[1, 1, 0]]\<rparr>,
        miw_inner := Some \<lparr>inner_shape = [1, 3], planes = [[0, 0, 0]]\<rparr>\<rparr>) =
   (if x then
   Inr (\<lparr>exported_exists = True,
         files = [(Intensity_tif 0, Tiff_real [1, 3]), (Label_tif 0, Tiff_bool [True, True])],
         randint_calls = 1\<rparr>,
        miw_init\<lparr>miw_label_maps := Some \<lparr>inner_shape = [1, 3], planes = [[1, 1, 0]]\<rparr>,
        miw_intensity_channel := Some \<lparr>inner_shape = [1, 3], planes = [[1, 3, 0]]\<rparr>,
        miw_rings := Some \<lparr>inner_shape = [1, 3], planes = [[1, 1, 0]]\<rparr>,
        miw_inner := Some \<lparr>inner_shape = [1, 3], planes = [[0, 0, 0]]\<rparr>,
        miw_results := Some [[(1, Ring3 2 4 2)]]\<rparr>)
    else Inl FileNotFoundError)"
  by (simp add: eval_defs)

text \<open>
  C9. The claim says that the measurement pipeline computes its results without reading or
  writing a file. Every call of \<open>get_integrated_intensity\<close> writes two TIFF files into
  \<open>/tmp/exported\<close> before it sums: on a frame with one labelled object \<open>run\<close> leaves two files
  behind, and without that directory the same \<open>run\<close> ends in \<open>FileNotFoundError\<close> and
  produces no result.
\<close>

theorem run_writes_files:
  "run (\<lambda>n. n) binary_erosion \<lparr>exported_exists = True, files = [], randint_calls = 0\<rparr>
     (miw_init\<lparr>miw_label_maps := Some \<lparr>inner_shape = [1, 3], planes = [[1, 1, 0]]\<rparr>,
        miw_intensity_channel := Some \<lparr>inner_shape = [1, 3], planes = [[1, 3, 0]]\<rparr>\<rparr>) =
   Inr (\<lparr>exported_exists = True,
         files = [(Intensity_tif 0, Tiff_real [1, 3]), (Label_tif 0, Tiff_bool [True, True])],
         randint_calls = 1\<rparr>,
        miw_init\<lparr>miw_label_maps := Some \<lparr>inner_shape = [1, 3], planes = [[1, 1, 0]]\<rparr>,
        miw_intensity_channel := Some \<lparr>inner_shape = [1, 3], planes = [[1, 3, 0]]\<rparr>,
        miw_rings := Some \<lparr>inner_shape = [1, 3], planes = [[1, 1, 0]]\<rparr>,
        miw_inner := Some \<lparr>inner_shape = [1, 3], planes = [[0, 0, 0]]\<rparr>,
        miw_results := Some [[(1, Ring3 2 4 2)]]\<rparr>) \<and>
   run (\<lambda>n. n) binary_erosion \<lparr>exported_exists = False, files = [], randint_calls = 0\<rparr>
     (miw_init\<lparr>miw_label_maps := Some \<lparr>inner_shape = [1, 3], planes = [[1, 1, 0]]\<rparr>,
        miw_intensity_channel := Some \<lparr>inner_shape = [1, 3], planes = [[1, 3, 0]]\<rparr>\<rparr>) =
   Inl FileNotFoundError"
  by (simp only: run_def run_with_def example_buffers example_measure sum.case if_False if_True
      simp_thms)

section \<open>Properties of the ring and inner masks\<close>

lemma mask_of_nth: "i < length lab \<Longrightarrow> mask_of v lab ! i = (if lab ! i = v then 1 else 0)"
  by (simp add: mask_of_def)

lemma length_mask_of: "length (mask_of v lab) = length lab"
  by (simp add: mask_of_def)

lemma outline_values_nth:
  assumes len: "\<And>m. length (er sh k m) = length m"
    and anti: "\<And>m i. i < length m \<Longrightarrow> er sh k m ! i \<Longrightarrow> m ! i \<noteq> 0"
    and "distinct vs" "length br = length lab" "length bi = length lab"
  shows "length (fst (outline_values er sh k lab vs (br, bi))) = length lab \<and>
     length (snd (outline_values er sh k lab vs (br, bi))) = length lab \<and>
     (\<forall>i<length lab.
        fst (outline_values er sh k lab vs (br, bi)) ! i =
          (if lab ! i \<in> set vs \<and> lab ! i \<noteq> 0
           then br ! i OR (if er sh k (mask_of (lab ! i) lab) ! i then 0 else lab ! i)
           else br ! i) \<and>
        snd (outline_values er sh k lab vs (br, bi)) ! i =
          (if lab ! i \<in> set vs \<and> lab ! i \<noteq> 0
           then bi ! i OR (if er sh k (mask_of (lab ! i) lab) ! i then lab ! i else 0)
           else bi ! i))"
  using assms(3-5)
proof (induction vs arbitrary: br bi)
  case Nil
  then show ?case by simp
next
  case (Cons v vs)
  have d: "distinct vs" and nv: "v \<notin> set vs" using Cons.prems(1) by simp_all
  show ?case
  proof (cases "v = 0")
    case True
    have "outline_values er sh k lab (v # vs) (br, bi) = outline_values er sh k lab vs (br, bi)"
      using True by simp
    moreover have "\<And>i. (lab ! i \<in> set (v # vs) \<and> lab ! i \<noteq> 0) = (lab ! i \<in> set vs \<and> lab ! i \<noteq> 0)"
      using True by auto
    ultimately show ?thesis using Cons.IH[OF d Cons.prems(2,3)] by simp
  next
    case False
    define eroded where "eroded = er sh k (mask_of v lab)"
    define rings where
      "rings = map2 (\<lambda>m e. ((m + 256 - of_bool e) mod 256) * v) (mask_of v lab) eroded"
    define inner where "inner = map (\<lambda>e. of_bool e * v) eroded"
    define br1 where "br1 = map2 (OR) br rings"
    define bi1 where "bi1 = map2 (OR) bi inner"
    have le: "length eroded = length lab" by (simp add: eroded_def len length_mask_of)
    have lr: "length rings = length lab" "length inner = length lab"
      by (simp_all add: rings_def inner_def le length_mask_of)
    have l1: "length br1 = length lab" "length bi1 = length lab"
      using Cons.prems(2,3) lr by (simp_all add: br1_def bi1_def)
    have step: "outline_values er sh k lab (v # vs) (br, bi) =
        outline_values er sh k lab vs (br1, bi1)"
      using False by (simp add: Let_def br1_def bi1_def rings_def inner_def eroded_def)
    have ri: "rings ! i = (if lab ! i = v \<and> \<not> eroded ! i then v else 0)"
      and ii: "inner ! i = (if lab ! i = v \<and> eroded ! i then v else 0)"
      if i: "i < length lab" for i
    proof -
      have e: "eroded ! i \<Longrightarrow> lab ! i = v"
        using anti[of i "mask_of v lab"] i
        by (auto simp: eroded_def length_mask_of mask_of_nth split: if_splits)
      show "rings ! i = (if lab ! i = v \<and> \<not> eroded ! i then v else 0)"
        using i le e by (auto simp: rings_def length_mask_of mask_of_nth)
      show "inner ! i = (if lab ! i = v \<and> eroded ! i then v else 0)"
        using i le e by (auto simp: inner_def)
    qed
    have b1: "br1 ! i = br ! i OR (if lab ! i = v \<and> \<not> eroded ! i then v else 0)"
      and b2: "bi1 ! i = bi ! i OR (if lab ! i = v \<and> eroded ! i then v else 0)"
      if i: "i < length lab" for i
      using i ri[OF i] ii[OF i] lr Cons.prems(2,3) by (simp_all add: br1_def bi1_def)
    note ih = Cons.IH[OF d l1]
    have "\<forall>i<length lab.
        fst (outline_values er sh k lab vs (br1, bi1)) ! i =
          (if lab ! i \<in> set (v # vs) \<and> lab ! i \<noteq> 0
           then br ! i OR (if er sh k (mask_of (lab ! i) lab) ! i then 0 else lab ! i)
           else br ! i) \<and>
        snd (outline_values er sh k lab vs (br1, bi1)) ! i =
          (if lab ! i \<in> set (v # vs) \<and> lab ! i \<noteq> 0
           then bi ! i OR (if er sh k (mask_of (lab ! i) lab) ! i then lab ! i else 0)
           else bi ! i)"
    proof (intro allI impI)
      fix i assume i: "i < length lab"
      from ih i have f: "fst (outline_values er sh k lab vs (br1, bi1)) ! i =
          (if lab ! i \<in> set vs \<and> lab ! i \<noteq> 0
           then br1 ! i OR (if er sh k (mask_of (lab ! i) lab) ! i then 0 else lab ! i)
           else br1 ! i)"
        and s: "snd (outline_values er sh k lab vs (br1, bi1)) ! i =
          (if lab ! i \<in> set vs \<and> lab ! i \<noteq> 0
           then bi1 ! i OR (if er sh k (mask_of (lab ! i) lab) ! i then lab ! i else 0)
           else bi1 ! i)"
        by blast+
      show "fst (outline_values er sh k lab vs (br1, bi1)) ! i =
          (if lab ! i \<in> set (v # vs) \<and> lab ! i \<noteq> 0
           then br ! i OR (if er sh k (mask_of (lab ! i) lab) ! i then 0 else lab ! i)
           else br ! i) \<and>
        snd (outline_values er sh k lab vs (br1, bi1)) ! i =
          (if lab ! i \<in> set (v # vs) \<and> lab ! i \<noteq> 0
           then bi ! i OR (if er sh k (mask_of (lab ! i) lab) ! i then lab ! i else 0)
           else bi ! i)"
      proof (cases "lab ! i = v")
        case True
        then show ?thesis
          using f s b1[OF i] b2[OF i] nv False by (simp add: eroded_def)
      next
        case ne: False
        then show ?thesis
          using f s b1[OF i] b2[OF i] by simp
      qed
    qed
    then show ?thesis using step ih by simp
  qed
qed

lemma outline_frame_nth:
  assumes len: "\<And>m. length (er sh k m) = length m"
    and anti: "\<And>m i. i < length m \<Longrightarrow> er sh k m ! i \<Longrightarrow> m ! i \<noteq> 0"
  shows "length (fst (outline_frame er sh k lab)) = length lab"
    "length (snd (outline_frame er sh k lab)) = length lab"
    "i < length lab \<Longrightarrow> fst (outline_frame er sh k lab) ! i =
       (if lab ! i \<noteq> 0 \<and> \<not> er sh k (mask_of (lab ! i) lab) ! i then lab ! i else 0)"
    "i < length lab \<Longrightarrow> snd (outline_frame er sh k lab) ! i =
       (if lab ! i \<noteq> 0 \<and> er sh k (mask_of (lab ! i) lab) ! i then lab ! i else 0)"
proof -
  have d: "distinct (np_unique lab)" by (simp add: np_unique_def)
  note ov = outline_values_nth[where er = er and sh = sh and k = k, OF len anti d,
      of "replicate (length lab) 0" lab "replicate (length lab) 0", simplified]
  show "length (fst (outline_frame er sh k lab)) = length lab"
    "length (snd (outline_frame er sh k lab)) = length lab"
    using ov by (simp_all add: outline_frame_def)
  have m: "i < length lab \<Longrightarrow> lab ! i \<in> set (np_unique lab)"
    by (simp add: np_unique_def)
  show "i < length lab \<Longrightarrow> fst (outline_frame er sh k lab) ! i =
       (if lab ! i \<noteq> 0 \<and> \<not> er sh k (mask_of (lab ! i) lab) ! i then lab ! i else 0)"
    using ov m by (simp add: outline_frame_def)
  show "i < length lab \<Longrightarrow> snd (outline_frame er sh k lab) ! i =
       (if lab ! i \<noteq> 0 \<and> er sh k (mask_of (lab ! i) lab) ! i then lab ! i else 0)"
    using ov m by (simp add: outline_frame_def)
qed

lemma footprint_iff: "i \<in> footprint lab l \<longleftrightarrow> i < length lab \<and> lab ! i = l"
  by (auto simp: footprint_def region_pixels_def)

lemma finite_footprint: "finite (footprint lab l)"
  by (simp add: footprint_def)

lemma erode_once_sub: "i < length m \<Longrightarrow> erode_once sh m ! i \<Longrightarrow> m ! i"
  by (simp add: erode_once_def)

lemma erode_pow_sub: "i < length m \<Longrightarrow> (erode_once sh ^^ n) m ! i \<Longrightarrow> m ! i"
proof (induction n)
  case 0
  then show ?case by simp
next
  case (Suc n)
  have "i < length ((erode_once sh ^^ n) m)" using Suc.prems(1) by (simp add: length_erode_pow)
  then have "(erode_once sh ^^ n) m ! i" using Suc.prems(2) erode_once_sub by simp
  then show ?case using Suc.IH Suc.prems(1) by blast
qed

lemma length_binary_erosion: "length (binary_erosion sh k m) = length m"
  by (simp add: binary_erosion_def length_erode_pow)

lemma binary_erosion_sub: "i < length m \<Longrightarrow> binary_erosion sh k m ! i \<Longrightarrow> m ! i \<noteq> 0"
  using erode_pow_sub[where i = i and m = "map (\<lambda>p. p \<noteq> 0) m" and sh = sh and n = "nat k"]
  by (auto simp: binary_erosion_def split: if_splits)

text \<open>
  C6. For an erosion that keeps the shape of the mask and never leaves it, and every non-zero
  label of every frame, the footprints of the label in the ring buffer and in the inner buffer
  returned by \<open>labels_to_outlines\<close> are disjoint, their union is the footprint of the label in
  the label map, the two pixel counts add up to the count of the original footprint, and the
  inner footprint is the eroded mask.
\<close>

theorem labels_to_outlines_partition:
  assumes "\<forall>sh k m. length (er sh k m) = length m"
    and "\<forall>sh k m i. i < length m \<longrightarrow> er sh k m ! i \<longrightarrow> m ! i \<noteq> 0"
    and lm: "miw_label_maps w = Some lm"
  shows "\<exists>R I. labels_to_outlines er w = Inr (R, I) \<and>
     length (planes R) = length (planes lm) \<and> length (planes I) = length (planes lm) \<and>
     inner_shape R = inner_shape lm \<and> inner_shape I = inner_shape lm \<and>
     (\<forall>t<length (planes lm). \<forall>v. v \<noteq> 0 \<longrightarrow>
        footprint (planes R ! t) v \<inter> footprint (planes I ! t) v = {} \<and>
        footprint (planes R ! t) v \<union> footprint (planes I ! t) v = footprint (planes lm ! t) v \<and>
        card (footprint (planes R ! t) v) + card (footprint (planes I ! t) v)
          = card (footprint (planes lm ! t) v) \<and>
        footprint (planes I ! t) v =
          {i \<in> footprint (planes lm ! t) v.
             er (inner_shape lm) (miw_membrane_thickness w) (mask_of v (planes lm ! t)) ! i})"
proof -
  have len: "\<And>sh k m. length (er sh k m) = length m"
    using assms(1) by blast
  have anti: "\<And>sh k m i. i < length m \<Longrightarrow> er sh k m ! i \<Longrightarrow> m ! i \<noteq> 0"
    using assms(2) by blast
  define sh where "sh = inner_shape lm"
  define k where "k = miw_membrane_thickness w"
  define res where "res = map (outline_frame er sh k) (planes lm)"
  define R where "R = lm\<lparr>planes := map fst res\<rparr>"
  define I where "I = lm\<lparr>planes := map snd res\<rparr>"
  have r: "labels_to_outlines er w = Inr (R, I)"
    using lm by (simp add: labels_to_outlines_def Let_def R_def I_def res_def sh_def k_def)
  have l: "length (planes R) = length (planes lm)" "length (planes I) = length (planes lm)"
    "inner_shape R = inner_shape lm" "inner_shape I = inner_shape lm"
    by (simp_all add: R_def I_def res_def)
  have fr: "footprint (planes R ! t) v \<inter> footprint (planes I ! t) v = {} \<and>
        footprint (planes R ! t) v \<union> footprint (planes I ! t) v = footprint (planes lm ! t) v \<and>
        card (footprint (planes R ! t) v) + card (footprint (planes I ! t) v)
          = card (footprint (planes lm ! t) v) \<and>
        footprint (planes I ! t) v =
          {i \<in> footprint (planes lm ! t) v. er sh k (mask_of v (planes lm ! t)) ! i}"
    if t: "t < length (planes lm)" and v: "v \<noteq> 0" for t v
  proof -
    define lab where "lab = planes lm ! t"
    have pr: "planes R ! t = fst (outline_frame er sh k lab)"
      and pi: "planes I ! t = snd (outline_frame er sh k lab)"
      using t by (simp_all add: R_def I_def res_def lab_def)
    note of = outline_frame_nth[where er = er and sh = sh and k = k and lab = lab,
        OF len[where sh = sh and k = k] anti[where sh = sh and k = k]]
    have ring: "footprint (planes R ! t) v = {i \<in> footprint lab v. \<not> er sh k (mask_of v lab) ! i}"
      unfolding pr using of(1) of(3) v by (auto simp: footprint_iff split: if_splits)
    have inn: "footprint (planes I ! t) v = {i \<in> footprint lab v. er sh k (mask_of v lab) ! i}"
      unfolding pi using of(2) of(4) v by (auto simp: footprint_iff split: if_splits)
    have dj: "footprint (planes R ! t) v \<inter> footprint (planes I ! t) v = {}"
      unfolding ring inn by blast
    have un: "footprint (planes R ! t) v \<union> footprint (planes I ! t) v = footprint lab v"
      unfolding ring inn by blast
    have "card (footprint (planes R ! t) v \<union> footprint (planes I ! t) v) =
        card (footprint (planes R ! t) v) + card (footprint (planes I ! t) v)"
      by (rule card_Un_disjoint) (simp_all add: finite_footprint dj)
    then have "card (footprint (planes R ! t) v) + card (footprint (planes I ! t) v)
        = card (footprint lab v)"
      unfolding un by simp
    then show ?thesis using dj un inn by (simp add: lab_def)
  qed
  show ?thesis
    using r l fr unfolding sh_def k_def by blast
qed

lemma example_disk_outlines:
  "labels_to_outlines binary_erosion
     (miw_init\<lparr>miw_label_maps := Some \<lparr>inner_shape = [3, 3], planes = [[2, 2, 2, 2, 2, 2, 2, 2, 2]]\<rparr>,
        miw_membrane_thickness := 1\<rparr>)
   = Inr (\<lparr>inner_shape = [3, 3], planes = [[2, 2, 2, 2, 0, 2, 2, 2, 2]]\<rparr>,
          \<lparr>inner_shape = [3, 3], planes = [[0, 0, 0, 0, 2, 0, 0, 0, 0]]\<rparr>)"
  by (simp add: labels_to_outlines_def outline_frame_def np_unique_def mask_of_def
      binary_erosion_def erode_once_def coord_def stride_def upt_rec_numeral Let_def miw_init_def)

theorem labels_to_outlines_partition_witness:
  "labels_to_outlines binary_erosion
     (miw_init\<lparr>miw_label_maps := Some \<lparr>inner_shape = [3, 3], planes = [[2, 2, 2, 2, 2, 2, 2, 2, 2]]\<rparr>,
        miw_membrane_thickness := 1\<rparr>)
   = Inr (\<lparr>inner_shape = [3, 3], planes = [[2, 2, 2, 2, 0, 2, 2, 2, 2]]\<rparr>,
          \<lparr>inner_shape = [3, 3], planes = [[0, 0, 0, 0, 2, 0, 0, 0, 0]]\<rparr>) \<and>
   card (footprint [2, 2, 2, 2, 0, 2, 2, 2, 2] 2) + card (footprint [0, 0, 0, 0, 2, 0, 0, 0, 0] 2)
     = card (footprint [2, 2, 2, 2, 2, 2, 2, 2, 2] 2)"
proof -
  have lm: "miw_label_maps
      (miw_init\<lparr>miw_label_maps := Some \<lparr>inner_shape = [3, 3], planes = [[2, 2, 2, 2, 2, 2, 2, 2, 2]]\<rparr>,
        miw_membrane_thickness := 1\<rparr>)
      = Some \<lparr>inner_shape = [3, 3], planes = [[2, 2, 2, 2, 2, 2, 2, 2, 2]]\<rparr>"
    by simp
  have len: "\<forall>sh k m. length (binary_erosion sh k m) = length m"
    by (simp add: length_binary_erosion)
  have anti: "\<forall>sh k m i. i < length m \<longrightarrow> binary_erosion sh k m ! i \<longrightarrow> m ! i \<noteq> 0"
    using binary_erosion_sub by blast
  note t = labels_to_outlines_partition[OF len anti lm]
  then obtain R I where ri: "labels_to_outlines binary_erosion
     (miw_init\<lparr>miw_label_maps := Some \<lparr>inner_shape = [3, 3], planes = [[2, 2, 2, 2, 2, 2, 2, 2, 2]]\<rparr>,
        miw_membrane_thickness := 1\<rparr>) = Inr (R, I)"
    and c: "\<forall>t<length (planes \<lparr>inner_shape = [3, 3], planes = [[2, 2, 2, 2, 2, 2, 2, 2, 2 :: nat]]\<rparr>).
       \<forall>v. v \<noteq> 0 \<longrightarrow>
        card (footprint (planes R ! t) v) + card (footprint (planes I ! t) v)
          = card (footprint (planes \<lparr>inner_shape = [3, 3], planes = [[2, 2, 2, 2, 2, 2, 2, 2, 2]]\<rparr> ! t) v)"
    by blast
  from ri have R: "R = \<lparr>inner_shape = [3, 3], planes = [[2, 2, 2, 2, 0, 2, 2, 2, 2]]\<rparr>"
    and I: "I = \<lparr>inner_shape = [3, 3], planes = [[0, 0, 0, 0, 2, 0, 0, 0, 0]]\<rparr>"
    by (simp_all only: example_disk_outlines sum.inject prod.inject)
  from c[rule_format, of 0 2] have "card (footprint [2, 2, 2, 2, 0, 2, 2, 2, 2] 2) +
      card (footprint [0, 0, 0, 0, 2, 0, 0, 0, 0] 2) = card (footprint [2, 2, 2, 2, 2, 2, 2, 2, 2] 2)"
    unfolding R I by simp
  then show ?thesis using example_disk_outlines by simp
qed

section \<open>Properties of the outlier mask\<close>







lemma length_mul_mask: "length a = length m \<Longrightarrow> length (mul_mask a m) = length a"
  by (simp add: mul_mask_def)





section \<open>Properties of the neighbour pairing\<close>

subsection \<open>Exploration of a component\<close>

lemma graph_of_Image: "graph_of adj `` {a} = nbrs adj a"
  by (auto simp: graph_of_def nbrs_def split: option.splits)

lemma explore_correct:
  "\<forall>a nbs. map_of adj a = Some nbs \<longrightarrow> set nbs \<subseteq> fst ` set adj \<Longrightarrow>
   set stack \<subseteq> fst ` set adj \<Longrightarrow> distinct cs \<Longrightarrow>
     \<exists>c ext. explore adj stack cs = Inr c \<and> c = cs @ ext \<and> distinct c \<and>
       set c \<subseteq> set cs \<union> (graph_of adj)\<^sup>* `` set stack \<and>
       ((\<forall>x\<in>set cs. graph_of adj `` {x} \<subseteq> set cs \<union> set stack) \<longrightarrow>
          set stack \<subseteq> set c \<and> (\<forall>x\<in>set c. graph_of adj `` {x} \<subseteq> set c))"
proof (induction adj stack cs rule: explore.induct)
  case (1 adj cs)
  then show ?case by simp
next
  case (2 adj q stack cs)
  note closed = "2.prems"(1)
  let ?G = "graph_of adj"
  have st: "set stack \<subseteq> fst ` set adj" and qk: "q \<in> fst ` set adj"
    using "2.prems"(2) by simp_all
  show ?case
  proof (cases "q \<in> set cs")
    case True
    from "2.IH"(1)[OF True closed st "2.prems"(3)] obtain c ext where
      e: "explore adj stack cs = Inr c" "c = cs @ ext" "distinct c"
      and snd: "set c \<subseteq> set cs \<union> ?G\<^sup>* `` set stack"
      and cl: "(\<forall>x\<in>set cs. ?G `` {x} \<subseteq> set cs \<union> set stack) \<longrightarrow>
          set stack \<subseteq> set c \<and> (\<forall>x\<in>set c. ?G `` {x} \<subseteq> set c)"
      by blast
    have r: "explore adj (q # stack) cs = Inr c" using True e(1) by simp
    have s2: "set c \<subseteq> set cs \<union> ?G\<^sup>* `` set (q # stack)"
      using snd by auto
    have c2: "(\<forall>x\<in>set cs. ?G `` {x} \<subseteq> set cs \<union> set (q # stack)) \<longrightarrow>
          set (q # stack) \<subseteq> set c \<and> (\<forall>x\<in>set c. ?G `` {x} \<subseteq> set c)"
    proof
      assume a: "\<forall>x\<in>set cs. ?G `` {x} \<subseteq> set cs \<union> set (q # stack)"
      then have "\<forall>x\<in>set cs. ?G `` {x} \<subseteq> set cs \<union> set stack"
        using True by auto
      then have "set stack \<subseteq> set c \<and> (\<forall>x\<in>set c. ?G `` {x} \<subseteq> set c)" using cl by blast
      moreover have "q \<in> set c" using True e(2) by simp
      ultimately show "set (q # stack) \<subseteq> set c \<and> (\<forall>x\<in>set c. ?G `` {x} \<subseteq> set c)" by simp
    qed
    show ?thesis using r e(2,3) s2 c2 by blast
  next
    case False
    from qk obtain nbs where m: "map_of adj q = Some nbs"
      by (metis map_of_eq_None_iff not_Some_eq)
    let ?new = "rev (filter (\<lambda>nb. nb \<notin> set (cs @ [q])) nbs)"
    have nk: "set nbs \<subseteq> fst ` set adj" using closed m by blast
    have st': "set (?new @ stack) \<subseteq> fst ` set adj" using nk st by auto
    have d': "distinct (cs @ [q])" using False "2.prems"(3) by simp
    from "2.IH"(2)[OF False m closed st' d'] obtain c ext where
      e: "explore adj (?new @ stack) (cs @ [q]) = Inr c" "c = (cs @ [q]) @ ext" "distinct c"
      and snd: "set c \<subseteq> set (cs @ [q]) \<union> ?G\<^sup>* `` set (?new @ stack)"
      and cl: "(\<forall>x\<in>set (cs @ [q]). ?G `` {x} \<subseteq> set (cs @ [q]) \<union> set (?new @ stack)) \<longrightarrow>
          set (?new @ stack) \<subseteq> set c \<and> (\<forall>x\<in>set c. ?G `` {x} \<subseteq> set c)"
      by blast
    have r: "explore adj (q # stack) cs = Inr c" using False m e(1) by simp
    have ext: "c = cs @ (q # ext)" using e(2) by simp
    have gq: "?G `` {q} = set nbs" using m by (simp add: graph_of_Image nbrs_def)
    have snd': "set c \<subseteq> set cs \<union> {q} \<union> ?G\<^sup>* `` set ?new \<union> ?G\<^sup>* `` set stack"
      using snd unfolding set_append Image_Un by auto
    have s2: "set c \<subseteq> set cs \<union> ?G\<^sup>* `` set (q # stack)"
    proof
      fix x assume "x \<in> set c"
      then consider "x \<in> set cs" | "x = q" | "x \<in> ?G\<^sup>* `` set ?new" | "x \<in> ?G\<^sup>* `` set stack"
        using snd' by blast
      then show "x \<in> set cs \<union> ?G\<^sup>* `` set (q # stack)"
      proof cases
        case 3
        then obtain y where y: "y \<in> set nbs" "(y, x) \<in> ?G\<^sup>*" by auto
        then have "(q, y) \<in> ?G" using gq by blast
        then have "(q, x) \<in> ?G\<^sup>*" using y(2) by (rule converse_rtrancl_into_rtrancl)
        then show ?thesis by auto
      qed auto
    qed
    have c2: "(\<forall>x\<in>set cs. ?G `` {x} \<subseteq> set cs \<union> set (q # stack)) \<longrightarrow>
          set (q # stack) \<subseteq> set c \<and> (\<forall>x\<in>set c. ?G `` {x} \<subseteq> set c)"
    proof
      assume a: "\<forall>x\<in>set cs. ?G `` {x} \<subseteq> set cs \<union> set (q # stack)"
      have "\<forall>x\<in>set (cs @ [q]). ?G `` {x} \<subseteq> set (cs @ [q]) \<union> set (?new @ stack)"
      proof
        fix x assume x: "x \<in> set (cs @ [q])"
        show "?G `` {x} \<subseteq> set (cs @ [q]) \<union> set (?new @ stack)"
        proof (cases "x = q")
          case True
          then show ?thesis using gq by auto
        next
          case False
          then have "x \<in> set cs" using x by simp
          then have "?G `` {x} \<subseteq> set cs \<union> set (q # stack)" using a by blast
          then show ?thesis by auto
        qed
      qed
      then have h: "set (?new @ stack) \<subseteq> set c" "\<forall>x\<in>set c. ?G `` {x} \<subseteq> set c"
        using cl by blast+
      have "q \<in> set c" using ext by simp
      then show "set (q # stack) \<subseteq> set c \<and> (\<forall>x\<in>set c. ?G `` {x} \<subseteq> set c)"
        using h by auto
    qed
    show ?thesis using r ext e(3) s2 c2 by blast
  qed
qed

lemma explore_component:
  assumes closed: "\<forall>a nbs. map_of adj a = Some nbs \<longrightarrow> set nbs \<subseteq> fst ` set adj"
    and p: "p \<in> fst ` set adj"
  shows "\<exists>ext. explore adj [p] [] = Inr (p # ext) \<and> distinct (p # ext) \<and>
           set (p # ext) = (graph_of adj)\<^sup>* `` {p}"
proof -
  let ?G = "graph_of adj"
  from explore_correct[OF closed, of "[p]" "[]"] p obtain c ext where
    e: "explore adj [p] [] = Inr c" "c = ext" "distinct c"
    and snd: "set c \<subseteq> ?G\<^sup>* `` {p}"
    and cl: "p \<in> set c" "\<forall>x\<in>set c. ?G `` {x} \<subseteq> set c"
    by auto
  have hd: "\<exists>ext'. c = p # ext'"
  proof -
    obtain nbs where m: "map_of adj p = Some nbs"
      using p by (metis map_of_eq_None_iff not_Some_eq)
    let ?new = "rev (filter (\<lambda>nb. nb \<notin> set ([] @ [p])) nbs)"
    have st: "set (?new @ []) \<subseteq> fst ` set adj" using closed m by auto
    from explore_correct[OF closed st, of "[p]"] obtain c' ext' where
      c': "explore adj (?new @ []) [p] = Inr c'" "c' = [p] @ ext'" by auto
    have "explore adj [p] [] = explore adj (?new @ []) ([] @ [p])"
      using m by simp
    then have "explore adj [p] [] = Inr c'" using c'(1) by simp
    then have "c = c'" using e(1) by simp
    then show ?thesis using c'(2) by simp
  qed
  have "?G\<^sup>* `` {p} \<subseteq> set c"
  proof
    fix x assume "x \<in> ?G\<^sup>* `` {p}"
    then have "(p, x) \<in> ?G\<^sup>*" by simp
    then show "x \<in> set c"
      by (induction rule: rtrancl_induct) (use cl in auto)
  qed
  then show ?thesis using e hd snd by auto
qed

subsection \<open>The adjacency dictionary\<close>

lemma near_sym: "near a b = near b a"
  by (simp add: near_def power2_commute add.commute)

lemma map_fst_map_entry: "map fst (AList.map_entry k f xs) = map fst xs"
  by (induction xs) auto

lemma nbrs_map_entry:
  "nbrs (AList.map_entry k f xs) a =
     (if a = k then (case map_of xs k of None \<Rightarrow> {} | Some v \<Rightarrow> set (f v)) else nbrs xs a)"
  by (simp add: nbrs_def map_of_map_entry split: option.splits)

lemma set_set_add: "set (set_add q s) = insert q (set s)"
  by (auto simp: set_add_def)

lemma distinct_set_add: "distinct s \<Longrightarrow> distinct (set_add q s)"
  by (simp add: set_add_def)

lemma distinct_values_map_entry:
  "\<forall>v\<in>snd ` set xs. distinct v \<Longrightarrow>
     \<forall>v\<in>snd ` set (AList.map_entry k (set_add q) xs). distinct v"
  by (induction xs) (auto simp: distinct_set_add)

lemma adj_ok_add_edge:
  assumes "adj_ok keys adj"
  shows "adj_ok keys (add_edge p q adj)"
proof -
  have "\<forall>v\<in>snd ` set adj. distinct v" using assms by (simp add: adj_ok_def)
  then have "\<forall>v\<in>snd ` set (AList.map_entry p (set_add q) adj). distinct v"
    by (rule distinct_values_map_entry)
  then have "\<forall>v\<in>snd ` set (add_edge p q adj). distinct v"
    unfolding add_edge_def by (rule distinct_values_map_entry)
  moreover have "map fst (add_edge p q adj) = keys"
    using assms by (simp add: adj_ok_def add_edge_def map_fst_map_entry)
  ultimately show ?thesis by (simp add: adj_ok_def)
qed

lemma nbrs_add_edge:
  assumes "p \<noteq> q" "k \<in> fst ` set adj"
  shows "nbrs (add_edge p q adj) k =
     nbrs adj k \<union> (if k = p then {q} else {}) \<union> (if k = q then {p} else {})"
proof -
  obtain v where v: "map_of adj k = Some v"
    using assms(2) by (metis map_of_eq_None_iff not_Some_eq)
  show ?thesis
    using assms(1) v
    by (auto simp: add_edge_def nbrs_map_entry map_of_map_entry set_set_add nbrs_def
        split: option.splits)
qed

lemma fold_nbrs:
  assumes "\<And>x a. x \<in> set xs \<Longrightarrow> I a \<Longrightarrow> I (step x a) \<and> nbrs (step x a) k = nbrs a k \<union> A x"
    and "I a"
  shows "I (fold step xs a) \<and> nbrs (fold step xs a) k = nbrs a k \<union> (\<Union>x\<in>set xs. A x)"
  using assms
proof (induction xs arbitrary: a)
  case Nil
  then show ?case by simp
next
  case (Cons x xs)
  have s: "I (step x a)" "nbrs (step x a) k = nbrs a k \<union> A x"
    using Cons.prems(1)[of x a] Cons.prems(2) by simp_all
  have "I (fold step xs (step x a)) \<and>
      nbrs (fold step xs (step x a)) k = nbrs (step x a) k \<union> (\<Union>x\<in>set xs. A x)"
    by (rule Cons.IH) (use Cons.prems(1) s(1) in auto)
  then show ?case using s(2) by auto
qed

lemma adj_ok_keys: "adj_ok keys adj \<Longrightarrow> fst ` set adj = set keys"
  by (metis adj_ok_def set_map)

lemma edges_ImageI:
  "a \<in> set pts \<Longrightarrow> b \<in> set pts \<Longrightarrow> particle a \<noteq> particle b \<Longrightarrow> near a b \<Longrightarrow>
     particle b \<in> edges pts `` {particle a}"
  unfolding edges_def by blast

lemma build_adj_props:
  assumes d: "distinct (map particle pts)"
  shows "adj_ok (map particle pts) (build_adj pts)"
    and "k \<in> particle ` set pts \<Longrightarrow> nbrs (build_adj pts) k = edges pts `` {k}"
proof -
  define ps where "ps = map particle pts"
  define n where "n = length ps"
  define adj0 where "adj0 = map (\<lambda>p. (p, [] :: nat list)) ps"
  define A where "A = (\<lambda>k i j. if near (pts ! i) (pts ! j)
      then (if k = ps ! i then {ps ! j} else {}) \<union> (if k = ps ! j then {ps ! i} else {})
      else {})"
  define inner where "inner = (\<lambda>i adj. fold (\<lambda>j adj. if near (pts ! i) (pts ! j)
      then add_edge (ps ! i) (ps ! j) adj else adj) [Suc i..<n] adj)"
  have b: "build_adj pts = fold inner [0..<n] adj0"
    unfolding build_adj_def Let_def inner_def adj0_def n_def ps_def by (rule refl)
  have ok0: "adj_ok ps adj0"
    by (simp add: adj_ok_def adj0_def comp_def)
  have ne: "ps ! i \<noteq> ps ! j" if "i < j" "j < n" for i j
  proof -
    have "distinct ps" using d by (simp add: ps_def)
    moreover have "i < length ps" "j < length ps" "i \<noteq> j" using that by (simp_all add: n_def)
    ultimately show ?thesis by (simp add: nth_eq_iff_index_eq)
  qed
  have inner_step: "adj_ok ps (inner i a) \<and>
      nbrs (inner i a) k = nbrs a k \<union> (\<Union>j\<in>set [Suc i..<n]. A k i j)"
    if ok: "adj_ok ps a" and k: "k \<in> set ps" for i a k
    unfolding inner_def
  proof (rule fold_nbrs[where I = "adj_ok ps"])
    fix j a' assume j: "j \<in> set [Suc i..<n]" and ok': "adj_ok ps a'"
    have kk: "k \<in> fst ` set a'" using adj_ok_keys[OF ok'] k by simp
    have ij: "ps ! i \<noteq> ps ! j" using ne[of i j] j by simp
    show "adj_ok ps (if near (pts ! i) (pts ! j) then add_edge (ps ! i) (ps ! j) a' else a') \<and>
         nbrs (if near (pts ! i) (pts ! j) then add_edge (ps ! i) (ps ! j) a' else a') k =
         nbrs a' k \<union> A k i j"
      using ok' adj_ok_add_edge[OF ok'] nbrs_add_edge[OF ij kk]
      by (auto simp: A_def)
  qed (rule ok)
  have outer: "adj_ok ps (fold inner [0..<n] adj0) \<and>
      nbrs (fold inner [0..<n] adj0) k =
        nbrs adj0 k \<union> (\<Union>i\<in>set [0..<n]. \<Union>j\<in>set [Suc i..<n]. A k i j)"
    if k: "k \<in> set ps" for k
  proof (rule fold_nbrs[where I = "adj_ok ps"])
    fix i a assume "i \<in> set [0..<n]" and ok: "adj_ok ps a"
    show "adj_ok ps (inner i a) \<and>
        nbrs (inner i a) k = nbrs a k \<union> (\<Union>j\<in>set [Suc i..<n]. A k i j)"
      by (rule inner_step[OF ok k])
  qed (rule ok0)
  show "adj_ok (map particle pts) (build_adj pts)"
  proof (cases "ps = []")
    case True
    then have "n = 0" by (simp add: n_def)
    then have "build_adj pts = adj0" by (simp add: b)
    then show ?thesis using ok0 by (simp add: ps_def)
  next
    case False
    then obtain k where "k \<in> set ps" by (cases ps) auto
    from outer[OF this] show ?thesis by (simp add: b ps_def)
  qed
  show "nbrs (build_adj pts) k = edges pts `` {k}" if kin: "k \<in> particle ` set pts"
  proof -
    have k: "k \<in> set ps" using kin by (simp add: ps_def)
    have n0: "nbrs adj0 k = {}"
      using k by (auto simp: nbrs_def adj0_def map_of_map_restrict split: option.splits
          dest!: map_of_SomeD)
    have nb: "nbrs (build_adj pts) k = (\<Union>i\<in>{0..<n}. \<Union>j\<in>{Suc i..<n}. A k i j)"
      using outer[OF k] n0 by (simp add: b)
    have inA: "y \<in> (\<Union>i\<in>{0..<n}. \<Union>j\<in>{Suc i..<n}. A k i j)"
      if "i < j" "j < n" "y \<in> A k i j" for i j y
    proof -
      have "i \<in> {0..<n}" "j \<in> {Suc i..<n}" using that(1,2) by simp_all
      then show ?thesis using that(3) by blast
    qed
    have nth: "ps ! i = particle (pts ! i)" "pts ! i \<in> set pts" if "i < n" for i
      using that by (simp_all add: ps_def n_def)
    show ?thesis
    proof (intro set_eqI iffI)
      fix y assume "y \<in> nbrs (build_adj pts) k"
      then obtain i j where ij: "i < n" "Suc i \<le> j" "j < n" and y: "y \<in> A k i j"
        unfolding nb by auto
      from y have nr: "near (pts ! i) (pts ! j)"
        and c: "(k = ps ! i \<and> y = ps ! j) \<or> (k = ps ! j \<and> y = ps ! i)"
        by (auto simp: A_def split: if_splits)
      have df: "ps ! i \<noteq> ps ! j" using ne[of i j] ij by simp
      from c show "y \<in> edges pts `` {k}"
      proof
        assume "k = ps ! i \<and> y = ps ! j"
        then show ?thesis
          using edges_ImageI[of "pts ! i" pts "pts ! j"] nr df nth[OF ij(1)] nth[OF ij(3)]
          by simp
      next
        assume "k = ps ! j \<and> y = ps ! i"
        moreover have "near (pts ! j) (pts ! i)" using nr near_sym by simp
        ultimately show ?thesis
          using edges_ImageI[of "pts ! j" pts "pts ! i"] df nth[OF ij(1)] nth[OF ij(3)]
          by simp
      qed
    next
      fix y assume "y \<in> edges pts `` {k}"
      then obtain a c where ac: "a \<in> set pts" "c \<in> set pts" "particle a = k" "particle c = y"
        "k \<noteq> y" "near a c"
        by (auto simp: edges_def)
      then obtain i j where i: "i < n" "pts ! i = a" and j: "j < n" "pts ! j = c"
        by (auto simp: in_set_conv_nth n_def ps_def)
      have "i \<noteq> j" using ac(3,4,5) i(2) j(2) by auto
      then consider "i < j" | "j < i" by linarith
      then show "y \<in> nbrs (build_adj pts) k"
      proof cases
        case 1
        have "y \<in> A k i j"
          using ac(3,4,6) i j nth(1)[OF i(1)] nth(1)[OF j(1)] by (simp add: A_def)
        then show ?thesis unfolding nb using inA[OF 1 j(1)] by simp
      next
        case 2
        have "near (pts ! j) (pts ! i)" using ac(6) i(2) j(2) near_sym by simp
        then have "y \<in> A k j i"
          using ac(3,4) i j nth(1)[OF i(1)] nth(1)[OF j(1)] by (simp add: A_def)
        then show ?thesis unfolding nb using inA[OF 2 i(1)] by simp
      qed
    qed
  qed
qed

subsection \<open>The loop over the components\<close>

lemma sym_rtrancl_Image:
  assumes "sym G" "x \<in> G\<^sup>* `` {p}"
  shows "G\<^sup>* `` {x} = G\<^sup>* `` {p}"
proof -
  have px: "(p, x) \<in> G\<^sup>*" using assms(2) by simp
  have xp: "(x, p) \<in> G\<^sup>*" using px assms(1) by (meson sym_rtrancl symD)
  show ?thesis
  proof (intro set_eqI iffI)
    fix y assume "y \<in> G\<^sup>* `` {x}"
    then show "y \<in> G\<^sup>* `` {p}" using px by (auto intro: rtrancl_trans)
  next
    fix y assume "y \<in> G\<^sup>* `` {p}"
    then show "y \<in> G\<^sup>* `` {x}" using xp by (auto intro: rtrancl_trans)
  qed
qed

lemma closed_rtrancl:
  assumes "G `` V \<subseteq> V" "v \<in> V" "(v, y) \<in> G\<^sup>*"
  shows "y \<in> V"
  using assms(3,2,1) by (induction rule: rtrancl_induct) auto

lemma unvisited_component_disjoint:
  assumes "sym G" "G `` V \<subseteq> V" "p \<notin> V"
  shows "G\<^sup>* `` {p} \<inter> V = {}"
proof (rule ccontr)
  assume "G\<^sup>* `` {p} \<inter> V \<noteq> {}"
  then obtain x where x: "(p, x) \<in> G\<^sup>*" "x \<in> V" by auto
  then have "(x, p) \<in> G\<^sup>*" using assms(1) by (meson sym_rtrancl symD)
  then have "p \<in> V" using closed_rtrancl[OF assms(2) x(2)] by simp
  then show False using assms(3) by simp
qed

lemma set_set_update: "set (set_update visited c) = set visited \<union> set c"
proof -
  have "set (fold set_add c visited) = set visited \<union> set c" for visited
    by (induction c arbitrary: visited) (auto simp: set_set_add)
  then show ?thesis by (simp add: set_update_def)
qed

lemma iso_in_sym:
  assumes "sym G" "iso_in G a b"
  shows "iso_in G b a"
proof -
  have "b \<in> G\<^sup>* `` {a}" using assms(2) by (auto simp: iso_in_def)
  then have "G\<^sup>* `` {b} = G\<^sup>* `` {a}" using sym_rtrancl_Image[OF assms(1)] by simp
  then show ?thesis using assms(2) by (auto simp: iso_in_def)
qed

lemma iso_in_component:
  assumes "sym G" "iso_in G x y" "x \<in> G\<^sup>* `` {p}"
  shows "G\<^sup>* `` {p} = {x, y}"
  using sym_rtrancl_Image[OF assms(1,3)] assms(2) by (simp add: iso_in_def)

end
